theory Spec2Isabelle
  imports Complex_Main "HOL-Library.Log_Nat"
begin

section \<open>JavaScript numbers\<close>

text \<open>
  The grid utilities compute with JavaScript numbers, that is IEEE 754 binary64 values.
  A finite double is a rational; every arithmetic operation computes the exact rational
  result and rounds it to the nearest double, ties to the even significand
  (\<open>round_double\<close>): 53 significant bits, smallest spacing \<open>2 powi (- 1074)\<close>, overflow to
  an infinity from \<open>2 ^ 1024\<close> on. The two zeros are identified: no operation of the
  modelled code divides by a variable or prints a zero, so the sign of zero is never observed.
\<close>

datatype number = Num rat | PosInf | NegInf | NaN

definition ilog2 :: "rat \<Rightarrow> int" where
  "ilog2 x = (if 1 \<le> x then bitlen \<lfloor>x\<rfloor> - 1 else - bitlen (\<lceil>1 / x\<rceil> - 1))"

definition round_half_even :: "rat \<Rightarrow> int" where
  "round_half_even y = (let f = \<lfloor>y\<rfloor>; r = y - of_int f in
     if r < 1 / 2 then f else if 1 / 2 < r then f + 1 else if even f then f else f + 1)"

definition round_double :: "rat \<Rightarrow> number" where
  "round_double x = (if x = 0 then Num 0 else
     let e = max (ilog2 \<bar>x\<bar> - 52) (- 1074);
         r = of_int (round_half_even (x / 2 powi e)) * 2 powi e
     in if 2 ^ 1024 \<le> \<bar>r\<bar> then (if 0 < x then PosInf else NegInf) else Num r)"

fun js_add :: "number \<Rightarrow> number \<Rightarrow> number" where
  "js_add (Num a) (Num b) = round_double (a + b)"
| "js_add NaN _ = NaN"
| "js_add _ NaN = NaN"
| "js_add PosInf NegInf = NaN"
| "js_add NegInf PosInf = NaN"
| "js_add PosInf _ = PosInf"
| "js_add _ PosInf = PosInf"
| "js_add NegInf _ = NegInf"
| "js_add _ NegInf = NegInf"

fun js_mul :: "number \<Rightarrow> number \<Rightarrow> number" where
  "js_mul (Num a) (Num b) = round_double (a * b)"
| "js_mul NaN _ = NaN"
| "js_mul _ NaN = NaN"
| "js_mul PosInf (Num b) = (if b = 0 then NaN else if 0 < b then PosInf else NegInf)"
| "js_mul NegInf (Num b) = (if b = 0 then NaN else if 0 < b then NegInf else PosInf)"
| "js_mul (Num a) PosInf = (if a = 0 then NaN else if 0 < a then PosInf else NegInf)"
| "js_mul (Num a) NegInf = (if a = 0 then NaN else if 0 < a then NegInf else PosInf)"
| "js_mul PosInf PosInf = PosInf"
| "js_mul NegInf NegInf = PosInf"
| "js_mul PosInf NegInf = NegInf"
| "js_mul NegInf PosInf = NegInf"

fun js_div :: "number \<Rightarrow> number \<Rightarrow> number" where
  "js_div (Num a) (Num b) =
     (if b = 0 then (if a = 0 then NaN else if 0 < a then PosInf else NegInf)
      else round_double (a / b))"
| "js_div NaN _ = NaN"
| "js_div _ NaN = NaN"
| "js_div (Num a) PosInf = Num 0"
| "js_div (Num a) NegInf = Num 0"
| "js_div PosInf (Num b) = (if 0 \<le> b then PosInf else NegInf)"
| "js_div NegInf (Num b) = (if 0 \<le> b then NegInf else PosInf)"
| "js_div PosInf PosInf = NaN"
| "js_div PosInf NegInf = NaN"
| "js_div NegInf PosInf = NaN"
| "js_div NegInf NegInf = NaN"

text \<open>Comparison: every comparison with \<open>NaN\<close> is false.\<close>

fun js_lt :: "number \<Rightarrow> number \<Rightarrow> bool" where
  "js_lt (Num a) (Num b) = (a < b)"
| "js_lt NaN _ = False"
| "js_lt _ NaN = False"
| "js_lt NegInf NegInf = False"
| "js_lt NegInf _ = True"
| "js_lt PosInf _ = False"
| "js_lt _ PosInf = True"
| "js_lt _ NegInf = False"

definition js_le :: "number \<Rightarrow> number \<Rightarrow> bool" where
  "js_le a b = (a \<noteq> NaN \<and> b \<noteq> NaN \<and> \<not> js_lt b a)"

definition js_ge :: "number \<Rightarrow> number \<Rightarrow> bool" where
  "js_ge a b = js_le b a"

definition isNaN :: "number \<Rightarrow> bool" where
  "isNaN v = (v = NaN)"

fun Math_floor :: "number \<Rightarrow> number" where
  "Math_floor (Num x) = Num (of_int \<lfloor>x\<rfloor>)"
| "Math_floor v = v"

text \<open>\<open>Math.round\<close>: the nearest integer, the larger one at a tie.\<close>

fun Math_round :: "number \<Rightarrow> number" where
  "Math_round (Num x) = Num (of_int \<lfloor>x + 1 / 2\<rfloor>)"
| "Math_round v = v"



section \<open>Numbers and strings\<close>

definition digit_char :: "nat \<Rightarrow> char" where
  "digit_char d = ''0123456789'' ! d"

fun nat_digits :: "nat \<Rightarrow> string" where
  "nat_digits n = (if n < 10 then [digit_char n] else nat_digits (n div 10) @ [digit_char (n mod 10)])"

declare nat_digits.simps [simp del]

text \<open>
  \<open>Number::toString\<close>: the shortest digit string \<open>s\<close> (\<open>k\<close> digits) and the decimal
  exponent \<open>n\<close> with \<open>s * 10 powi (n - k)\<close> rounding to the number, printed in positional
  or in exponent notation. At most 17 digits are ever needed for a double, and with 17
  digits the string is the decimal nearest to the number (the even one at a tie).
\<close>

definition ilog10 :: "rat \<Rightarrow> int" where
  "ilog10 x = (if 1 \<le> x then int (floorlog 10 (nat \<lfloor>x\<rfloor>)) - 1
               else - int (floorlog 10 (nat (\<lceil>1 / x\<rceil> - 1))))"

definition digit_candidates :: "rat \<Rightarrow> nat \<Rightarrow> (int \<times> nat) list" where
  "digit_candidates x k =
     concat (map (\<lambda>n. concat (map (\<lambda>s.
         if 10 ^ (k - 1) \<le> s \<and> s < 10 ^ k \<and> round_double (of_nat s * 10 powi (n - int k)) = Num x
         then [(n, s)] else [])
       [nat \<lfloor>x / 10 powi (n - int k)\<rfloor>, nat \<lfloor>x / 10 powi (n - int k)\<rfloor> + 1]))
     [ilog10 x + 1, ilog10 x + 2])"

text \<open>
  Among the digit strings of one length that round to the number, the closest one is
  taken, and of two equally close ones the even one.
\<close>

definition candidate_error :: "rat \<Rightarrow> nat \<Rightarrow> (int \<times> nat) \<Rightarrow> rat" where
  "candidate_error x k c = \<bar>of_nat (snd c) * 10 powi (fst c - int k) - x\<bar>"

fun closest_candidate :: "rat \<Rightarrow> nat \<Rightarrow> (int \<times> nat) \<Rightarrow> (int \<times> nat) list \<Rightarrow> (int \<times> nat)" where
  "closest_candidate x k c [] = c"
| "closest_candidate x k c (d # ds) =
     (if candidate_error x k d < candidate_error x k c \<or>
         (candidate_error x k d = candidate_error x k c \<and> even (snd d) \<and> odd (snd c))
      then closest_candidate x k d ds else closest_candidate x k c ds)"

function shortest_digits :: "rat \<Rightarrow> nat \<Rightarrow> int \<times> nat \<times> nat" where
  "shortest_digits x k =
     (if 17 \<le> k then (ilog10 x + 1, 17, nat (round_half_even (x / 10 powi (ilog10 x + 1 - 17))))
      else (case digit_candidates x k of
              [] \<Rightarrow> shortest_digits x (Suc k)
            | c # cs \<Rightarrow> (let b = closest_candidate x k c cs in (fst b, k, snd b))))"
  by pat_completeness auto
termination
  by (relation "measure (\<lambda>(x, k). 17 - k)") auto

declare shortest_digits.simps [simp del]

definition positiveToString :: "rat \<Rightarrow> string" where
  "positiveToString x =
     (case shortest_digits x 1 of (n, k, s) \<Rightarrow>
        let ds = nat_digits s in
        if int k \<le> n \<and> n \<le> 21 then ds @ replicate (nat (n - int k)) (CHR ''0'')
        else if 0 < n \<and> n \<le> 21 then take (nat n) ds @ ''.'' @ drop (nat n) ds
        else if - 6 < n \<and> n \<le> 0 then ''0.'' @ replicate (nat (- n)) (CHR ''0'') @ ds
        else let e = n - 1;
                 es = (if e < 0 then ''-'' else ''+'') @ nat_digits (nat \<bar>e\<bar>)
             in if k = 1 then ds @ ''e'' @ es
                else take 1 ds @ ''.'' @ drop 1 ds @ ''e'' @ es)"

definition numberToString :: "number \<Rightarrow> string" where
  "numberToString v =
     (case v of
        NaN \<Rightarrow> ''NaN''
      | PosInf \<Rightarrow> ''Infinity''
      | NegInf \<Rightarrow> ''-Infinity''
      | Num x \<Rightarrow> if x = 0 then ''0''
                 else (if x < 0 then ''-'' else []) @ positiveToString \<bar>x\<bar>)"

text \<open>
  \<open>Number.prototype.toFixed(f)\<close>: below \<open>10 ^ 21\<close> the integer \<open>n\<close> nearest to
  \<open>x * 10 ^ f\<close> (the larger one at a tie) is printed with \<open>f\<close> digits after the point,
  padded with zeros on the left when it has at most \<open>f\<close> digits.
\<close>

definition fixed_digits :: "nat \<Rightarrow> nat \<Rightarrow> string" where
  "fixed_digits f n =
     (let m = nat_digits n in
      if f = 0 then m
      else let m' = (if length m \<le> f then replicate (f + 1 - length m) (CHR ''0'') @ m else m);
               k = length m'
           in take (k - f) m' @ ''.'' @ drop (k - f) m')"

definition toFixed :: "nat \<Rightarrow> number \<Rightarrow> string" where
  "toFixed f v =
     (case v of
        NaN \<Rightarrow> ''NaN''
      | PosInf \<Rightarrow> ''Infinity''
      | NegInf \<Rightarrow> ''-Infinity''
      | Num x \<Rightarrow>
          (if x < 0 then ''-'' else []) @
          (if 10 ^ 21 \<le> \<bar>x\<bar> then positiveToString \<bar>x\<bar>
           else fixed_digits f (nat \<lfloor>\<bar>x\<bar> * 10 ^ f + 1 / 2\<rfloor>)))"

text \<open>
  \<open>parseFloat\<close>: leading white space is skipped, then the longest prefix that is a
  decimal literal (sign, digits, fraction, exponent, or \<open>Infinity\<close>) is read and rounded
  to a double; anything after it is ignored, and \<open>NaN\<close> is returned when there is no
  such prefix. Strings are lists of code units below \<open>U+0100\<close>; the white space and line
  terminators of the language in that range are the tab, the line feed, the vertical tab,
  the form feed, the carriage return, the space and the no-break space \<open>U+00A0\<close>.
\<close>

definition is_ws :: "char \<Rightarrow> bool" where
  "is_ws c = (of_char c \<in> {9, 10, 11, 12, 13, 32, 160 :: nat})"

definition is_digit :: "char \<Rightarrow> bool" where
  "is_digit c = (48 \<le> (of_char c :: nat) \<and> (of_char c :: nat) \<le> 57)"

definition digits_val :: "string \<Rightarrow> nat" where
  "digits_val ds = foldl (\<lambda>acc c. 10 * acc + (of_char c - 48)) 0 ds"

definition exponent_part :: "string \<Rightarrow> int" where
  "exponent_part r =
     (case r of
        [] \<Rightarrow> 0
      | c # r1 \<Rightarrow>
          if c = CHR ''e'' \<or> c = CHR ''E'' then
            (case r1 of
               [] \<Rightarrow> 0
             | d # r2 \<Rightarrow>
                 if d = CHR ''-'' then
                   (if takeWhile is_digit r2 = [] then 0 else - int (digits_val (takeWhile is_digit r2)))
                 else if d = CHR ''+'' then int (digits_val (takeWhile is_digit r2))
                 else int (digits_val (takeWhile is_digit r1)))
          else 0)"

definition parseFloat :: "string \<Rightarrow> number" where
  "parseFloat str =
     (let s0 = dropWhile is_ws str;
          neg = (take 1 s0 = ''-'');
          s1 = (if take 1 s0 = ''-'' \<or> take 1 s0 = ''+'' then drop 1 s0 else s0)
      in if take 8 s1 = ''Infinity'' then (if neg then NegInf else PosInf)
         else
           let ip = takeWhile is_digit s1;
               r1 = dropWhile is_digit s1;
               fp = (if take 1 r1 = ''.'' then takeWhile is_digit (drop 1 r1) else []);
               r2 = (if take 1 r1 = ''.'' then dropWhile is_digit (drop 1 r1) else r1)
           in if ip = [] \<and> fp = [] then NaN
              else
                let mv = of_nat (digits_val (ip @ fp)) * 10 powi (exponent_part r2 - int (length fp))
                in round_double (if neg then - mv else mv))"

text \<open>\<open>String.prototype.split\<close> on a one-character separator: never the empty array.\<close>

fun split_on :: "char \<Rightarrow> string \<Rightarrow> string list" where
  "split_on c [] = [[]]"
| "split_on c (x # xs) =
     (if x = c then [] # split_on c xs
      else (case split_on c xs of p # ps \<Rightarrow> (x # p) # ps | [] \<Rightarrow> [[x]]))"

section \<open>The grid utilities\<close>

record bounds =
  minLat :: number
  maxLat :: number
  minLon :: number
  maxLon :: number

definition TAIWAN_BOUNDS :: bounds where
  "TAIWAN_BOUNDS = \<lparr> minLat = Num (43 / 2), maxLat = Num (51 / 2),
                      minLon = Num 119, maxLon = Num (245 / 2) \<rparr>"

text \<open>The literals \<open>0.009\<close> and \<open>0.01\<close> denote the doubles nearest to them.\<close>

definition GRID_SIZE_LAT :: number where
  "GRID_SIZE_LAT = round_double (9 / 1000)"

definition GRID_SIZE_LON :: number where
  "GRID_SIZE_LON = round_double (1 / 100)"

definition isInTaiwanBounds :: "number \<Rightarrow> number \<Rightarrow> bool" where
  "isInTaiwanBounds lat lon =
     (js_ge lat (minLat TAIWAN_BOUNDS) \<and> js_le lat (maxLat TAIWAN_BOUNDS) \<and>
      js_ge lon (minLon TAIWAN_BOUNDS) \<and> js_le lon (maxLon TAIWAN_BOUNDS))"

definition coordinateToGridId :: "number \<Rightarrow> number \<Rightarrow> string option" where
  "coordinateToGridId lat lon =
     (if \<not> isInTaiwanBounds lat lon then None
      else
        let gridLat = js_mul (Math_floor (js_div lat GRID_SIZE_LAT)) GRID_SIZE_LAT;
            gridLon = js_mul (Math_floor (js_div lon GRID_SIZE_LON)) GRID_SIZE_LON
        in Some (''grid_'' @ toFixed 3 gridLat @ ''_'' @ toFixed 2 gridLon))"

definition gridIdToCoordinate :: "string \<Rightarrow> (number \<times> number) option" where
  "gridIdToCoordinate gridId =
     (let parts = split_on (CHR ''_'') gridId in
      if length parts \<noteq> 3 \<or> parts ! 0 \<noteq> ''grid'' then None
      else
        let lat = parseFloat (parts ! 1);
            lon = parseFloat (parts ! 2)
        in if isNaN lat \<or> isNaN lon then None else Some (lat, lon))"

definition gridIdToCenter :: "string \<Rightarrow> (number \<times> number) option" where
  "gridIdToCenter gridId =
     (case gridIdToCoordinate gridId of
        None \<Rightarrow> None
      | Some (lat, lon) \<Rightarrow>
          Some (js_add lat (js_div GRID_SIZE_LAT (Num 2)), js_add lon (js_div GRID_SIZE_LON (Num 2))))"






partial_function (option) allLonLoop ::
  "number \<Rightarrow> number \<Rightarrow> string list \<Rightarrow> string list option" where
  "allLonLoop currentLat currentLon gridIds =
     (if js_lt currentLon (maxLon TAIWAN_BOUNDS)
      then allLonLoop currentLat (js_add currentLon GRID_SIZE_LON)
             (gridIds @ [''grid_'' @ toFixed 3 currentLat @ ''_'' @ toFixed 2 currentLon])
      else Some gridIds)"

partial_function (option) allLatLoop ::
  "number \<Rightarrow> number \<Rightarrow> string list \<Rightarrow> string list option" where
  "allLatLoop startGridLon currentLat gridIds =
     (if js_lt currentLat (maxLat TAIWAN_BOUNDS)
      then Option.bind (allLonLoop currentLat startGridLon gridIds)
             (\<lambda>gridIds'. allLatLoop startGridLon (js_add currentLat GRID_SIZE_LAT) gridIds')
      else Some gridIds)"

declare allLonLoop.simps [code]
declare allLatLoop.simps [code]

text \<open>
  The module-level cache \<open>cachedAllTaiwanGridIds\<close> is passed in and returned: \<open>None\<close> is
  the initial \<open>null\<close>.
\<close>

definition getAllTaiwanGridIds ::
  "string list option \<Rightarrow> (string list \<times> string list option) option" where
  "getAllTaiwanGridIds cachedAllTaiwanGridIds =
     (case cachedAllTaiwanGridIds of
        Some ids \<Rightarrow> Some (ids, cachedAllTaiwanGridIds)
      | None \<Rightarrow>
          let startGridLat =
                js_mul (Math_floor (js_div (minLat TAIWAN_BOUNDS) GRID_SIZE_LAT)) GRID_SIZE_LAT;
              startGridLon =
                js_mul (Math_floor (js_div (minLon TAIWAN_BOUNDS) GRID_SIZE_LON)) GRID_SIZE_LON
          in Option.bind (allLatLoop startGridLon startGridLat [])
               (\<lambda>gridIds. Some (gridIds, Some gridIds)))"

section \<open>The footprint store and the route handlers\<close>

text \<open>
  A footprint row of the database. The clock is a number of milliseconds; a time that the
  handler leaves to the database default is \<open>None\<close>. The store is the table in the
  order the database returns rows; database failures are outside the model.
\<close>

record footprint =
  fp_id :: nat
  user_id :: string
  coordinate :: "string option"
  Create_time :: "nat option"
  Update_time :: "nat option"

record session_user =
  user_email :: "string option"
  user_ident :: "string option"

record session =
  user :: "session_user option"

text \<open>
  The guard \<open>!session || !session.user || !session.user.id\<close> of the two route handlers
  that call \<open>auth()\<close> themselves: the user id when it passes (a non-empty string).
\<close>

definition session_user_id :: "session option \<Rightarrow> string option" where
  "session_user_id s =
     (case s of
        None \<Rightarrow> None
      | Some se \<Rightarrow>
          (case user se of
             None \<Rightarrow> None
           | Some u \<Rightarrow>
               (case user_ident u of
                  None \<Rightarrow> None
                | Some i \<Rightarrow> if i = [] then None else Some i)))"

text \<open>\<open>requireAuth\<close>: \<open>None\<close> stands for the thrown \<open>UNAUTHORIZED\<close> response.\<close>

definition requireAuth :: "session option \<Rightarrow> string option" where
  "requireAuth s =
     (case s of
        None \<Rightarrow> None
      | Some se \<Rightarrow>
          (case user se of
             None \<Rightarrow> None
           | Some u \<Rightarrow>
               (case user_email u of
                  None \<Rightarrow> None
                | Some e \<Rightarrow>
                    if e = [] then None
                    else (case user_ident u of
                            None \<Rightarrow> None
                          | Some i \<Rightarrow> if i = [] then None else Some i))))"

definition findMany :: "string \<Rightarrow> footprint list \<Rightarrow> footprint list" where
  "findMany userId store = filter (\<lambda>f. user_id f = userId \<and> coordinate f \<noteq> None) store"

definition findFirst :: "string \<Rightarrow> string \<Rightarrow> footprint list \<Rightarrow> footprint option" where
  "findFirst userId coord store =
     List.find (\<lambda>f. user_id f = userId \<and> coordinate f = Some coord) store"

definition fresh_id :: "footprint list \<Rightarrow> nat" where
  "fresh_id store = Suc (foldr max (map fp_id store) 0)"

definition touch :: "nat \<Rightarrow> nat \<Rightarrow> footprint list \<Rightarrow> footprint list" where
  "touch ident now store =
     map (\<lambda>f. if fp_id f = ident then f\<lparr>Update_time := Some now\<rparr> else f) store"

text \<open>
  The coverage computation of \<open>GET /api/footprint/mist-percentage\<close>. The \<open>Set\<close> of
  explored ids is a list without duplicates, in insertion order.
\<close>

definition Set_add :: "string \<Rightarrow> string list \<Rightarrow> string list" where
  "Set_add x xs = (if x \<in> set xs then xs else xs @ [x])"

definition forEach_body :: "string list \<Rightarrow> footprint \<Rightarrow> string list" where
  "forEach_body exploredGridIds fp =
     (case coordinate fp of
        None \<Rightarrow> exploredGridIds
      | Some c \<Rightarrow>
          if c = [] then exploredGridIds
          else
            let parts = split_on (CHR '','') c;
                latStr = parts ! 0;
                lonStr = (if 2 \<le> length parts then parts ! 1 else ''undefined'');
                lat = parseFloat latStr;
                lon = parseFloat lonStr
            in if isNaN lat \<or> isNaN lon then exploredGridIds
               else (case coordinateToGridId lat lon of
                       None \<Rightarrow> exploredGridIds
                     | Some gridId \<Rightarrow>
                         if gridId = [] then exploredGridIds
                         else Set_add gridId exploredGridIds))"

definition exploredGridIds :: "footprint list \<Rightarrow> string list" where
  "exploredGridIds footprints = foldl forEach_body [] footprints"

definition computePercentage :: "nat \<Rightarrow> nat \<Rightarrow> number" where
  "computePercentage exploredCount totalGrids =
     Math_round (js_mul (js_div (Num (of_nat exploredCount)) (Num (of_nat totalGrids))) (Num 100))"

text \<open>
  The handler after authentication, as a function of the enumeration it was given and of
  the rows of the user: the guard on an empty enumeration, the explored set, the percentage.
\<close>

definition coverage :: "string list \<Rightarrow> footprint list \<Rightarrow> number" where
  "coverage allGridIds footprints =
     (let totalGrids = length allGridIds in
      if totalGrids = 0 then Num 0
      else computePercentage (length (exploredGridIds footprints)) totalGrids)"

text \<open>The response is the percentage and the HTTP status; the cache is returned updated.\<close>

definition GET_mist_percentage ::
  "session option \<Rightarrow> footprint list \<Rightarrow> string list option
     \<Rightarrow> ((number \<times> nat) \<times> string list option) option" where
  "GET_mist_percentage s store cache =
     (case session_user_id s of
        None \<Rightarrow> Some ((Num 0, 200), cache)
      | Some userId \<Rightarrow>
          Option.bind (getAllTaiwanGridIds cache)
            (\<lambda>(allGridIds, cache'). Some ((coverage allGridIds (findMany userId store), 200), cache')))"

text \<open>
  \<open>POST\<close> of the second handler in \<open>mist-percentage/route.ts\<close>: the row is keyed by the
  user and the string \<open>lat,lon\<close> of the raw coordinate. A body field that is absent or not
  a number is \<open>None\<close>.
\<close>

datatype post_response =
    UNAUTHORIZED
  | BAD_REQUEST_invalid_coordinate
  | BAD_REQUEST_outside_taiwan
  | Success_updated
  | Success_created

definition POST_record ::
  "session option \<Rightarrow> number option \<Rightarrow> number option \<Rightarrow> nat \<Rightarrow> footprint list
     \<Rightarrow> post_response \<times> footprint list" where
  "POST_record s lat lon now store =
     (case requireAuth s of
        None \<Rightarrow> (UNAUTHORIZED, store)
      | Some userId \<Rightarrow>
          (case (lat, lon) of
             (Some lat', Some lon') \<Rightarrow>
               (case coordinateToGridId lat' lon' of
                  None \<Rightarrow> (BAD_REQUEST_outside_taiwan, store)
                | Some gridId \<Rightarrow>
                    if gridId = [] then (BAD_REQUEST_outside_taiwan, store)
                    else
                      let coord = numberToString lat' @ '','' @ numberToString lon' in
                      (case findFirst userId coord store of
                         Some existingFootprint \<Rightarrow>
                           (Success_updated, touch (fp_id existingFootprint) now store)
                       | None \<Rightarrow>
                           (Success_created,
                            store @ [\<lparr> fp_id = fresh_id store, user_id = userId,
                                       coordinate = Some coord, Create_time = Some now,
                                       Update_time = Some now \<rparr>])))
           | _ \<Rightarrow> (BAD_REQUEST_invalid_coordinate, store)))"

text \<open>
  \<open>POST /api/footprint/explore-grid\<close>: the row is keyed by the user and the string of the
  centre of the cell; an existing row is returned as it is.
\<close>

datatype explore_response =
    Please_login_401
  | Coordinate_format_400
  | Outside_taiwan_400
  | No_grid_id_400
  | No_center_400
  | Explored (alreadyExplored: bool) (footprint_id: nat) (gridId: string)
      (stored_coordinate: "string option")

definition POST_explore_grid ::
  "session option \<Rightarrow> number option \<Rightarrow> number option \<Rightarrow> footprint list
     \<Rightarrow> explore_response \<times> footprint list" where
  "POST_explore_grid s lat lon store =
     (case session_user_id s of
        None \<Rightarrow> (Please_login_401, store)
      | Some userId \<Rightarrow>
          (case (lat, lon) of
             (Some lat', Some lon') \<Rightarrow>
               if \<not> isInTaiwanBounds lat' lon' then (Outside_taiwan_400, store)
               else
                 (case coordinateToGridId lat' lon' of
                    None \<Rightarrow> (No_grid_id_400, store)
                  | Some gridId' \<Rightarrow>
                      if gridId' = [] then (No_grid_id_400, store)
                      else
                        (case gridIdToCenter gridId' of
                           None \<Rightarrow> (No_center_400, store)
                         | Some (centerLat, centerLon) \<Rightarrow>
                             let coord = numberToString centerLat @ '','' @ numberToString centerLon in
                             (case findFirst userId coord store of
                                Some existingFootprint \<Rightarrow>
                                  (Explored True (fp_id existingFootprint) gridId'
                                     (coordinate existingFootprint), store)
                              | None \<Rightarrow>
                                  (Explored False (fresh_id store) gridId' (Some coord),
                                   store @ [\<lparr> fp_id = fresh_id store, user_id = userId,
                                              coordinate = Some coord, Create_time = None,
                                              Update_time = None \<rparr>]))))
           | _ \<Rightarrow> (Coordinate_format_400, store)))"

section \<open>Cells and their identifiers\<close>

text \<open>
  The doubles denoted by \<open>0.009\<close> and \<open>0.01\<close>, and the identifier of the cell in row \<open>i\<close>
  and column \<open>j\<close> as the specification writes it: the corner \<open>9 * i / 1000\<close> with exactly
  three decimals and the corner \<open>j / 100\<close> with exactly two.
\<close>

definition cLat :: rat where
  "cLat = 5188146770730811 / 576460752303423488"

definition cLon :: rat where
  "cLon = 5764607523034235 / 576460752303423488"

definition decimal3 :: "nat \<Rightarrow> string" where
  "decimal3 n = nat_digits (n div 1000) @ ''.'' @
     [digit_char (n div 100 mod 10), digit_char (n div 10 mod 10), digit_char (n mod 10)]"

definition decimal2 :: "nat \<Rightarrow> string" where
  "decimal2 n = nat_digits (n div 100) @ ''.'' @
     [digit_char (n div 10 mod 10), digit_char (n mod 10)]"

definition cell_id :: "int \<Rightarrow> int \<Rightarrow> string" where
  "cell_id i j = ''grid_'' @ decimal3 (nat (9 * i)) @ ''_'' @ decimal2 (nat j)"

text \<open>
  The coordinate format of the specification, \<open>lat,lon\<close>: two decimal numbers joined by
  one comma and nothing else.
\<close>

definition is_decimal_number :: "string \<Rightarrow> bool" where
  "is_decimal_number s =
     (let s1 = (if take 1 s = ''-'' then drop 1 s else s);
          ip = takeWhile is_digit s1;
          r = dropWhile is_digit s1
      in ip \<noteq> [] \<and> (r = [] \<or> (take 1 r = ''.'' \<and> drop 1 r \<noteq> [] \<and> list_all is_digit (drop 1 r))))"

definition comma_joined_decimals :: "string \<Rightarrow> bool" where
  "comma_joined_decimals s =
     (case split_on (CHR '','') s of
        [a, b] \<Rightarrow> is_decimal_number a \<and> is_decimal_number b
      | _ \<Rightarrow> False)"

text \<open>
  The identifier that one footprint row contributes to the explored set, if any: the
  first two comma-separated parts of its coordinate string, read by \<open>parseFloat\<close> and
  mapped to their cell. (\<open>parseFloat(undefined)\<close> reads the string \<open>undefined\<close>.)
\<close>

definition record_cell :: "footprint \<Rightarrow> string option" where
  "record_cell fp =
     (case coordinate fp of
        None \<Rightarrow> None
      | Some c \<Rightarrow>
          if c = [] then None
          else
            let parts = split_on (CHR '','') c
            in coordinateToGridId (parseFloat (parts ! 0))
                 (parseFloat (if 2 \<le> length parts then parts ! 1 else ''undefined'')))"

text \<open>
  What one addition of the step adds to a double of the region: the step rounded to the
  spacing of the doubles there (\<open>2 powi (- 48)\<close> between 16 and 32 for latitudes,
  \<open>2 powi (- 46)\<close> between 64 and 128 for longitudes).
\<close>

definition stepLat :: rat where
  "stepLat = 2533274790396 / 281474976710656"

definition stepLon :: rat where
  "stepLon = 703687441777 / 70368744177664"

text \<open>Numbers that are not negative and not \<open>NaN\<close>.\<close>

fun nonneg :: "number \<Rightarrow> bool" where
  "nonneg (Num r) = (0 \<le> r)"
| "nonneg PosInf = True"
| "nonneg _ = False"

text \<open>
  A rectangular block of the grid in row-major order: \<open>rows\<close> rows from row \<open>i0\<close>, each
  with \<open>cols\<close> columns from column \<open>j0\<close>.
\<close>

definition grid_block :: "int \<Rightarrow> nat \<Rightarrow> int \<Rightarrow> nat \<Rightarrow> string list" where
  "grid_block i0 rows j0 cols =
     concat (map (\<lambda>k. map (\<lambda>j. cell_id (i0 + int k) (j0 + int j)) [0..<cols]) [0..<rows])"



section \<open>Rounding to a double\<close>

lemma floor_rat_numeral_div [simp]: "\<lfloor>numeral a / numeral b :: rat\<rfloor> = numeral a div numeral b"
  using floor_divide_of_int_eq[of "numeral a" "numeral b", where ?'a = rat] by simp

lemma ceiling_rat_numeral_div [simp]: "\<lceil>numeral a / numeral b :: rat\<rceil> = - (- numeral a div numeral b)"
  using floor_divide_of_int_eq[of "- numeral a" "numeral b", where ?'a = rat]
  by (simp add: ceiling_def)

lemmas round_eval = round_double_def ilog2_def bitlen_def compute_floorlog round_half_even_def Let_def

lemma powi_less_cancel: "(2::rat) powi m < 2 powi n \<Longrightarrow> m < n"
  by (rule ccontr) (use power_int_increasing[of n m "2::rat"] in auto)

lemma powi_le_mono: "m \<le> n \<Longrightarrow> (2::rat) powi m \<le> 2 powi n"
  by (rule power_int_increasing) auto

lemma ilog2_bounds:
  assumes "0 < x"
  shows "2 powi (ilog2 x) \<le> x \<and> x < 2 powi (ilog2 x + 1)"
proof (cases "1 \<le> x")
  case True
  define n where "n = \<lfloor>x\<rfloor>"
  have n1: "1 \<le> n" using True by (simp add: n_def le_floor_iff)
  then have n0: "0 < n" by simp
  have b1: "1 \<le> bitlen n" using n0 by (simp add: bitlen_alt_def)
  from bitlen_bounds[OF n0]
  have lo: "2 ^ nat (bitlen n - 1) \<le> n" and hi: "n < 2 ^ nat (bitlen n)" by auto
  have "(2::rat) powi (bitlen n - 1) = of_int (2 ^ nat (bitlen n - 1))"
    using b1 by (simp add: power_int_nonneg_exp)
  also have "\<dots> \<le> of_int n" using lo by (simp only: of_int_le_iff)
  also have "\<dots> \<le> x" by (simp add: n_def)
  finally have A: "2 powi (bitlen n - 1) \<le> x" .
  have "n + 1 \<le> 2 ^ nat (bitlen n)" using hi by simp
  then have "(of_int (n + 1) :: rat) \<le> of_int (2 ^ nat (bitlen n))" by (simp only: of_int_le_iff)
  moreover have "x < of_int (n + 1)" unfolding n_def by linarith
  ultimately have "x < of_int (2 ^ nat (bitlen n))" by linarith
  also have "\<dots> = (2::rat) powi (bitlen n)" using b1 by (simp add: power_int_nonneg_exp)
  finally have B: "x < 2 powi (bitlen n - 1 + 1)" by simp
  show ?thesis using A B True by (simp add: ilog2_def n_def)
next
  case False
  define y where "y = 1 / x"
  define m where "m = \<lceil>y\<rceil>"
  have y1: "1 < y" using False assms by (simp add: y_def)
  have m2: "2 \<le> m" using y1 unfolding m_def by (simp add: le_ceiling_iff)
  then have m0: "0 < m - 1" by simp
  define b where "b = bitlen (m - 1)"
  have b1: "1 \<le> b" using m0 by (simp add: b_def bitlen_alt_def)
  from bitlen_bounds[OF m0]
  have lo: "2 ^ nat (b - 1) \<le> m - 1" and hi: "m - 1 < 2 ^ nat b" by (auto simp: b_def)
  have "y \<le> of_int m" by (simp add: m_def)
  also have "(of_int m :: rat) \<le> of_int (2 ^ nat b)" using hi by (simp only: of_int_le_iff)
  also have "\<dots> = 2 powi b" using b1 by (simp add: power_int_nonneg_exp)
  finally have "1 / x \<le> 2 powi b" by (simp add: y_def)
  then have "1 \<le> 2 powi b * x" using assms by (simp add: field_simps)
  then have A: "2 powi (- b) \<le> x" by (simp add: power_int_minus field_simps)
  have "(2::rat) powi (b - 1) = of_int (2 ^ nat (b - 1))" using b1 by (simp add: power_int_nonneg_exp)
  also have "\<dots> \<le> of_int (m - 1)" using lo by (simp only: of_int_le_iff)
  also have "\<dots> < y" unfolding m_def using ceiling_correct[of y] by simp
  finally have "2 powi (b - 1) < 1 / x" by (simp add: y_def)
  moreover define q where "q = (2::rat) powi (b - 1)"
  moreover have q0: "0 < q" by (simp add: q_def)
  ultimately have "x < 1 / q" using assms by (simp add: field_simps)
  moreover have "- b + 1 = - (b - 1)" by simp
  then have "(2::rat) powi (- b + 1) = 1 / q"
    unfolding q_def by (simp only: power_int_minus inverse_eq_divide)
  ultimately have B: "x < 2 powi (- b + 1)" by simp
  show ?thesis using A B False by (simp add: ilog2_def y_def m_def b_def)
qed

lemma ilog2_unique:
  assumes "2 powi k \<le> x" "x < 2 powi (k + 1)"
  shows "ilog2 x = k"
proof -
  have x0: "0 < x" using assms(1) by (smt (verit) zero_less_power_int zero_less_numeral less_le_trans)
  from ilog2_bounds[OF x0] have lo: "2 powi (ilog2 x) \<le> x" and hi: "x < 2 powi (ilog2 x + 1)" by auto
  have "(2::rat) powi (ilog2 x) < 2 powi (k + 1)" using lo assms(2) by linarith
  then have "ilog2 x < k + 1" by (rule powi_less_cancel)
  moreover have "(2::rat) powi k < 2 powi (ilog2 x + 1)" using hi assms(1) by linarith
  then have "k < ilog2 x + 1" by (rule powi_less_cancel)
  ultimately show ?thesis by simp
qed

lemma rhe_err: "\<bar>of_int (round_half_even y) - y\<bar> \<le> 1 / 2"
proof -
  have a: "of_int \<lfloor>y\<rfloor> \<le> y" and b: "y < of_int \<lfloor>y\<rfloor> + 1" by linarith+
  consider "y - of_int \<lfloor>y\<rfloor> < 1 / 2" | "1 / 2 < y - of_int \<lfloor>y\<rfloor>" | "y - of_int \<lfloor>y\<rfloor> = 1 / 2"
    by linarith
  then show ?thesis
  proof cases
    case 1 then show ?thesis unfolding round_half_even_def Let_def using a b by simp
  next
    case 2 then show ?thesis unfolding round_half_even_def Let_def using a b by simp
  next
    case 3 then show ?thesis unfolding round_half_even_def Let_def using a b by (simp add: abs_if)
  qed
qed

lemma rhe_ge: "of_int a \<le> y \<Longrightarrow> a \<le> round_half_even y"
proof -
  assume "of_int a \<le> y"
  then have "a \<le> \<lfloor>y\<rfloor>" by (simp add: le_floor_iff)
  then show ?thesis unfolding round_half_even_def Let_def by auto
qed

lemma rhe_le: "y \<le> of_int b \<Longrightarrow> round_half_even y \<le> b"
proof -
  assume h: "y \<le> of_int b"
  have fl: "\<lfloor>y\<rfloor> \<le> b" using h by (simp add: floor_le_iff) 
  show ?thesis
  proof (cases "y = of_int b")
    case True then show ?thesis unfolding round_half_even_def Let_def by simp
  next
    case False
    then have "y < of_int b" using h by simp
    then have "\<lfloor>y\<rfloor> < b" by (simp add: floor_less_iff)
    then show ?thesis unfolding round_half_even_def Let_def by auto
  qed
qed

lemma rhe_int [simp]: "round_half_even (of_int n) = n"
  unfolding round_half_even_def Let_def by simp

lemma round_double_normal:
  assumes "2 powi k \<le> \<bar>x\<bar>" "\<bar>x\<bar> < 2 powi (k + 1)" "- 1022 \<le> k" "k < 1023"
  shows "round_double x = Num (of_int (round_half_even (x / 2 powi (k - 52))) * 2 powi (k - 52))"
proof -
  have x0: "x \<noteq> 0" using assms(1) by (smt (verit) zero_less_power_int zero_less_numeral abs_zero not_le)
  have il: "ilog2 \<bar>x\<bar> = k" using assms(1,2) by (rule ilog2_unique)
  have e: "max (ilog2 \<bar>x\<bar> - 52) (- 1074) = k - 52" using il assms(3) by simp
  define p where "p = (2::rat) powi (k - 52)"
  have p0: "0 < p" by (simp add: p_def)
  have "(2::rat) powi (k - 52 + 53) = 2 powi (k - 52) * 2 powi 53"
    by (rule power_int_add) simp
  moreover have "k - 52 + 53 = k + 1" by simp
  moreover have "(2::rat) powi 53 = 2 ^ 53" by simp
  ultimately have pk: "p * 2 ^ 53 = 2 powi (k + 1)"
    unfolding p_def by (simp only:)
  have "\<bar>x / p\<bar> < 2 ^ 53" using assms(2) p0 pk by (simp add: field_simps abs_mult)
  then have up: "x / p \<le> of_int (2 ^ 53)" and dn: "of_int (- (2 ^ 53)) \<le> x / p" by (auto simp: abs_if split: if_splits)
  have "round_half_even (x / p) \<le> 2 ^ 53" using rhe_le[OF up] .
  moreover have "- (2 ^ 53) \<le> round_half_even (x / p)" using rhe_ge[OF dn] .
  ultimately have "\<bar>round_half_even (x / p)\<bar> \<le> 2 ^ 53" by simp
  then have "\<bar>(of_int (round_half_even (x / p)) :: rat)\<bar> \<le> 2 ^ 53"
    by (metis of_int_abs of_int_le_iff of_int_numeral of_int_power)
  then have "\<bar>of_int (round_half_even (x / p)) * p\<bar> \<le> 2 ^ 53 * p"
    using p0 by (simp add: abs_mult)
  also have "\<dots> = 2 powi (k + 1)" using pk by (simp add: mult.commute)
  also have "\<dots> \<le> 2 powi 1023" using assms(4) by (intro powi_le_mono) simp
  also have "\<dots> < (2::rat) ^ 1024" by simp
  finally have small: "\<not> 2 ^ 1024 \<le> \<bar>of_int (round_half_even (x / p)) * p\<bar>" by simp
  show ?thesis unfolding round_double_def Let_def e using x0 small by (simp add: p_def)
qed


lemma rhe_ge_half: "of_int a - 1 / 2 < y \<Longrightarrow> a \<le> round_half_even y"
  using rhe_err[of y] by (simp add: abs_if split: if_splits)

lemma rhe_le_half: "y < of_int b + 1 / 2 \<Longrightarrow> round_half_even y \<le> b"
  using rhe_err[of y] by (simp add: abs_if split: if_splits)

lemma GRID_SIZE_LAT_eq: "GRID_SIZE_LAT = Num cLat"
  unfolding GRID_SIZE_LAT_def cLat_def by (simp add: round_eval)

lemma GRID_SIZE_LON_eq: "GRID_SIZE_LON = Num cLon"
  unfolding GRID_SIZE_LON_def cLon_def by (simp add: round_eval)

section \<open>Digits\<close>

lemma digit_char_0 [simp]: "digit_char 0 = CHR ''0''"
  by (simp add: digit_char_def)

lemma nat_digits_small: "n < 10 \<Longrightarrow> nat_digits n = [digit_char n]"
  by (simp add: nat_digits.simps)

lemma nat_digits_step: "10 \<le> n \<Longrightarrow> nat_digits n = nat_digits (n div 10) @ [digit_char (n mod 10)]"
  by (subst nat_digits.simps) simp

lemma nat_digits_nonempty [simp]: "nat_digits n \<noteq> []"
  by (subst nat_digits.simps) simp

lemma nat_digits_3:
  assumes "1000 \<le> n"
  shows "nat_digits n = nat_digits (n div 1000) @
     [digit_char (n div 100 mod 10), digit_char (n div 10 mod 10), digit_char (n mod 10)]"
proof -
  have a: "nat_digits n = nat_digits (n div 10) @ [digit_char (n mod 10)]"
    using assms by (intro nat_digits_step) simp
  have b: "nat_digits (n div 10) = nat_digits (n div 10 div 10) @ [digit_char (n div 10 mod 10)]"
    using assms by (intro nat_digits_step) simp
  have c: "nat_digits (n div 10 div 10) = nat_digits (n div 10 div 10 div 10) @ [digit_char (n div 10 div 10 mod 10)]"
    using assms by (intro nat_digits_step) simp
  have d: "n div 10 div 10 = n div 100" "n div 10 div 10 div 10 = n div 1000"
    by (simp_all add: div_mult2_eq[symmetric])
  show ?thesis using a b c d by simp
qed

lemma nat_digits_2:
  assumes "100 \<le> n"
  shows "nat_digits n = nat_digits (n div 100) @ [digit_char (n div 10 mod 10), digit_char (n mod 10)]"
proof -
  have a: "nat_digits n = nat_digits (n div 10) @ [digit_char (n mod 10)]"
    using assms by (intro nat_digits_step) simp
  have b: "nat_digits (n div 10) = nat_digits (n div 10 div 10) @ [digit_char (n div 10 mod 10)]"
    using assms by (intro nat_digits_step) simp
  have d: "n div 10 div 10 = n div 100"
    by (simp_all add: div_mult2_eq[symmetric])
  show ?thesis using a b d by simp
qed

lemma fixed_digits_3: "fixed_digits 3 n = decimal3 n"
proof -
  consider "n < 10" | "10 \<le> n" "n < 100" | "100 \<le> n" "n < 1000" | "1000 \<le> n" by linarith
  then show ?thesis
  proof cases
    case 1
    then show ?thesis
      by (simp add: fixed_digits_def decimal3_def nat_digits_small Let_def numeral_3_eq_3)
  next
    case 2
    then have "nat_digits n = [digit_char (n div 10), digit_char (n mod 10)]"
      by (simp add: nat_digits_step nat_digits_small)
    with 2 show ?thesis
      by (simp add: fixed_digits_def decimal3_def nat_digits_small Let_def numeral_3_eq_3)
  next
    case 3
    then have "nat_digits n = [digit_char (n div 100), digit_char (n div 10 mod 10), digit_char (n mod 10)]"
      using nat_digits_2[of n] by (simp add: nat_digits_small)
    with 3 show ?thesis
      by (simp add: fixed_digits_def decimal3_def nat_digits_small Let_def numeral_3_eq_3)
  next
    case 4
    then show ?thesis
      by (simp add: fixed_digits_def decimal3_def nat_digits_3 Let_def)
  qed
qed

lemma fixed_digits_2: "fixed_digits 2 n = decimal2 n"
proof -
  consider "n < 10" | "10 \<le> n" "n < 100" | "100 \<le> n" by linarith
  then show ?thesis
  proof cases
    case 1
    then show ?thesis
      by (simp add: fixed_digits_def decimal2_def nat_digits_small Let_def numeral_2_eq_2)
  next
    case 2
    then have "nat_digits n = [digit_char (n div 10), digit_char (n mod 10)]"
      by (simp add: nat_digits_step nat_digits_small)
    with 2 show ?thesis
      by (simp add: fixed_digits_def decimal2_def nat_digits_small Let_def numeral_2_eq_2)
  next
    case 3
    then show ?thesis
      by (simp add: fixed_digits_def decimal2_def nat_digits_2 Let_def)
  qed
qed

lemma toFixed_3:
  assumes "0 \<le> g" "g < 10 ^ 21" "\<lfloor>g * 1000 + 1 / 2\<rfloor> = n"
  shows "toFixed 3 (Num g) = decimal3 (nat n)"
  using assms by (simp add: toFixed_def fixed_digits_3)

lemma toFixed_2:
  assumes "0 \<le> g" "g < 10 ^ 21" "\<lfloor>g * 100 + 1 / 2\<rfloor> = n"
  shows "toFixed 2 (Num g) = decimal2 (nat n)"
  using assms by (simp add: toFixed_def fixed_digits_2)

section \<open>Quotients and corners inside the region\<close>

lemma lat_quotient:
  assumes "43 / 2 \<le> lat" "lat \<le> 51 / 2"
  shows "\<exists>q. js_div (Num lat) GRID_SIZE_LAT = Num q \<and> 2388 \<le> q \<and> q < 2834"
proof -
  define x where "x = lat / cLat"
  have c0: "cLat \<noteq> 0" by (simp add: cLat_def)
  have lo: "2 powi 11 \<le> \<bar>x\<bar>" and hi: "\<bar>x\<bar> < 2 powi (11 + 1)"
    using assms unfolding x_def cLat_def by (simp_all add: abs_if field_simps)
  have rd: "round_double x = Num (of_int (round_half_even (x / 2 powi (11 - 52))) * 2 powi (11 - 52))"
    by (rule round_double_normal[OF lo hi]) simp_all
  define R where "R = round_half_even (x * 2 ^ 41)"
  have e: "x / 2 powi (11 - 52) = x * 2 ^ 41" by (simp add: power_int_minus field_simps)
  have rd': "round_double x = Num (of_int R / 2 ^ 41)"
    unfolding rd e R_def by (simp add: power_int_minus field_simps)
  have "of_int (2388 * 2 ^ 41) \<le> x * 2 ^ 41"
    using assms unfolding x_def cLat_def by (simp add: field_simps)
  then have R1: "2388 * 2 ^ 41 \<le> R" unfolding R_def by (rule rhe_ge)
  have "x * 2 ^ 41 \<le> of_int (2834 * 2 ^ 41 - 1)"
    using assms unfolding x_def cLat_def by (simp add: field_simps)
  then have R2: "R \<le> 2834 * 2 ^ 41 - 1" unfolding R_def by (rule rhe_le)
  have B1: "(2388::rat) \<le> of_int R / 2 ^ 41"
    using R1 by (simp add: field_simps)
  have B2: "of_int R / 2 ^ 41 < (2834::rat)"
  proof -
    have "R < 2834 * 2 ^ 41" using R2 by simp
    then have "(of_int R :: rat) < of_int (2834 * 2 ^ 41)" by (simp only: of_int_less_iff)
    then show ?thesis by (simp add: field_simps)
  qed
  have "js_div (Num lat) (Num cLat) = Num (of_int R / 2 ^ 41)"
    using c0 rd' by (simp add: x_def)
  then show ?thesis
    unfolding GRID_SIZE_LAT_eq using B1 B2 by blast
qed


lemma lon_quotient:
  assumes "119 \<le> lon" "lon \<le> 245 / 2"
  shows "\<exists>q. js_div (Num lon) GRID_SIZE_LON = Num q \<and> 11900 \<le> q \<and> q < 12251"
proof -
  define x where "x = lon / cLon"
  have c0: "cLon \<noteq> 0" by (simp add: cLon_def)
  have lo: "2 powi 13 \<le> \<bar>x\<bar>" and hi: "\<bar>x\<bar> < 2 powi (13 + 1)"
    using assms unfolding x_def cLon_def by (simp_all add: abs_if field_simps)
  have rd: "round_double x = Num (of_int (round_half_even (x / 2 powi (13 - 52))) * 2 powi (13 - 52))"
    by (rule round_double_normal[OF lo hi]) simp_all
  define R where "R = round_half_even (x * 2 ^ 39)"
  have e: "x / 2 powi (13 - 52) = x * 2 ^ 39" by (simp add: power_int_minus field_simps)
  have rd': "round_double x = Num (of_int R / 2 ^ 39)"
    unfolding rd e R_def by (simp add: power_int_minus field_simps)
  have "of_int (11900 * 2 ^ 39) - 1 / 2 < x * 2 ^ 39"
    using assms unfolding x_def cLon_def by (simp add: field_simps)
  then have R1: "11900 * 2 ^ 39 \<le> R" unfolding R_def by (rule rhe_ge_half)
  have "x * 2 ^ 39 \<le> of_int (12250 * 2 ^ 39)"
    using assms unfolding x_def cLon_def by (simp add: field_simps)
  then have R2: "R \<le> 12250 * 2 ^ 39" unfolding R_def by (rule rhe_le)
  have B1: "(11900::rat) \<le> of_int R / 2 ^ 39"
    using R1 by (simp add: field_simps)
  have B2: "of_int R / 2 ^ 39 < (12251::rat)"
  proof -
    have "R < 12251 * 2 ^ 39" using R2 by simp
    then have "(of_int R :: rat) < of_int (12251 * 2 ^ 39)" by (simp only: of_int_less_iff)
    then show ?thesis by (simp add: field_simps)
  qed
  have "js_div (Num lon) (Num cLon) = Num (of_int R / 2 ^ 39)"
    using c0 rd' by (simp add: x_def)
  then show ?thesis
    unfolding GRID_SIZE_LON_eq using B1 B2 by blast
qed

lemma lat_corner:
  assumes "2388 \<le> i" "i \<le> 2833"
  shows "\<exists>g. js_mul (Num (of_int i)) GRID_SIZE_LAT = Num g \<and> 16 \<le> g \<and> g < 32 \<and>
           \<lfloor>g * 1000 + 1 / 2\<rfloor> = 9 * i"
proof -
  define x where "x = of_int i * cLat"
  have i1: "(2388::rat) \<le> of_int i" and i2: "of_int i \<le> (2833::rat)" using assms by simp_all
  have lo: "2 powi 4 \<le> \<bar>x\<bar>" and hi: "\<bar>x\<bar> < 2 powi (4 + 1)"
    using i1 i2 unfolding x_def cLat_def by (simp_all add: abs_if)
  have rd: "round_double x = Num (of_int (round_half_even (x / 2 powi (4 - 52))) * 2 powi (4 - 52))"
    by (rule round_double_normal[OF lo hi]) simp_all
  define R where "R = round_half_even (x * 2 ^ 48)"
  define g where "g = (of_int R :: rat) / 2 ^ 48"
  have e: "x / 2 powi (4 - 52) = x * 2 ^ 48" by (simp add: power_int_minus field_simps)
  have rd': "round_double x = Num g"
    unfolding rd e R_def g_def by (simp add: power_int_minus field_simps)
  have err: "\<bar>of_int R - x * 2 ^ 48\<bar> \<le> 1 / 2" unfolding R_def by (rule rhe_err)
  have gl: "x - 1 / 2 ^ 49 \<le> g" and gu: "g \<le> x + 1 / 2 ^ 49"
    using err unfolding g_def by (simp_all add: abs_if field_simps split: if_splits)
  have xl: "of_int i * (9 / 1000) - 1 / 10 ^ 11 \<le> x" and xu: "x \<le> of_int i * (9 / 1000)"
    using i1 i2 unfolding x_def cLat_def by simp_all
  have f1: "of_int (9 * i) \<le> g * 1000 + 1 / 2" using gl xl by simp
  have f2: "g * 1000 + 1 / 2 < of_int (9 * i) + 1" using gu xu by simp
  have fl: "\<lfloor>g * 1000 + 1 / 2\<rfloor> = 9 * i" using f1 f2 by (rule floor_unique)
  have "16 \<le> g" "g < 32" using gl gu xl xu i1 i2 by simp_all
  then show ?thesis
    unfolding GRID_SIZE_LAT_eq using rd' fl by (auto simp: x_def)
qed

lemma lon_corner:
  assumes "11900 \<le> j" "j \<le> 12250"
  shows "\<exists>g. js_mul (Num (of_int j)) GRID_SIZE_LON = Num g \<and> 64 \<le> g \<and> g < 128 \<and>
           \<lfloor>g * 100 + 1 / 2\<rfloor> = j"
proof -
  define x where "x = of_int j * cLon"
  have i1: "(11900::rat) \<le> of_int j" and i2: "of_int j \<le> (12250::rat)" using assms by simp_all
  have lo: "2 powi 6 \<le> \<bar>x\<bar>" and hi: "\<bar>x\<bar> < 2 powi (6 + 1)"
    using i1 i2 unfolding x_def cLon_def by (simp_all add: abs_if)
  have rd: "round_double x = Num (of_int (round_half_even (x / 2 powi (6 - 52))) * 2 powi (6 - 52))"
    by (rule round_double_normal[OF lo hi]) simp_all
  define R where "R = round_half_even (x * 2 ^ 46)"
  define g where "g = (of_int R :: rat) / 2 ^ 46"
  have e: "x / 2 powi (6 - 52) = x * 2 ^ 46" by (simp add: power_int_minus field_simps)
  have rd': "round_double x = Num g"
    unfolding rd e R_def g_def by (simp add: power_int_minus field_simps)
  have err: "\<bar>of_int R - x * 2 ^ 46\<bar> \<le> 1 / 2" unfolding R_def by (rule rhe_err)
  have gl: "x - 1 / 2 ^ 47 \<le> g" and gu: "g \<le> x + 1 / 2 ^ 47"
    using err unfolding g_def by (simp_all add: abs_if field_simps split: if_splits)
  have xl: "of_int j * (1 / 100) \<le> x" and xu: "x \<le> of_int j * (1 / 100) + 1 / 10 ^ 11"
    using i1 i2 unfolding x_def cLon_def by simp_all
  have f1: "of_int j \<le> g * 100 + 1 / 2" using gl xl by simp
  have f2: "g * 100 + 1 / 2 < of_int j + 1" using gu xu by simp
  have fl: "\<lfloor>g * 100 + 1 / 2\<rfloor> = j" using f1 f2 by (rule floor_unique)
  have "64 \<le> g" "g < 128" using gl gu xl xu i1 i2 by simp_all
  then show ?thesis
    unfolding GRID_SIZE_LON_eq using rd' fl by (auto simp: x_def)
qed

section \<open>Identifiers determine their cell\<close>

lemma digit_cases: "d < 10 \<Longrightarrow> d = 0 \<or> d = 1 \<or> d = 2 \<or> d = 3 \<or> d = 4 \<or> d = 5 \<or> d = 6 \<or> d = 7 \<or> d = 8 \<or> d = (9::nat)"
  by arith

lemma of_char_digit_char: "d < 10 \<Longrightarrow> (of_char (digit_char d) :: nat) = 48 + d"
  using digit_cases[of d] by (auto simp: digit_char_def)

lemma is_digit_digit_char: "d < 10 \<Longrightarrow> is_digit (digit_char d)"
  by (simp add: is_digit_def of_char_digit_char)

lemma nat_digits_all_digits: "c \<in> set (nat_digits n) \<Longrightarrow> is_digit c"
proof (induction n arbitrary: c rule: nat_digits.induct)
  case (1 n)
  show ?case
  proof (cases "n < 10")
    case True
    with "1.prems" show ?thesis by (auto simp: nat_digits_small is_digit_digit_char)
  next
    case False
    then have "nat_digits n = nat_digits (n div 10) @ [digit_char (n mod 10)]"
      by (simp add: nat_digits_step)
    with "1.prems" "1.IH"[OF False] show ?thesis
      by (auto simp: is_digit_digit_char)
  qed
qed

lemma digits_val_snoc: "digits_val (xs @ [c]) = 10 * digits_val xs + (of_char c - 48)"
  by (simp add: digits_val_def)

lemma digits_val_nat_digits: "digits_val (nat_digits n) = n"
proof (induction n rule: nat_digits.induct)
  case (1 n)
  show ?case
  proof (cases "n < 10")
    case True
    then show ?thesis by (simp add: nat_digits_small digits_val_def of_char_digit_char)
  next
    case False
    then have "nat_digits n = nat_digits (n div 10) @ [digit_char (n mod 10)]"
      by (simp add: nat_digits_step)
    then show ?thesis using "1.IH"[OF False]
      by (simp add: digits_val_snoc of_char_digit_char)
  qed
qed

lemma not_digit_dot: "is_digit c \<Longrightarrow> c \<noteq> CHR ''.''"
  by (auto simp: is_digit_def)

lemma not_digit_underscore: "is_digit c \<Longrightarrow> c \<noteq> CHR ''_''"
  by (auto simp: is_digit_def)

lemma digit_char_not_dot: "d < 10 \<Longrightarrow> digit_char d \<noteq> CHR ''.''"
  using is_digit_digit_char not_digit_dot by blast

lemma digit_char_not_underscore: "d < 10 \<Longrightarrow> digit_char d \<noteq> CHR ''_''"
  using is_digit_digit_char not_digit_underscore by blast

lemma filter_dot_nat_digits: "filter (\<lambda>c. c \<noteq> CHR ''.'') (nat_digits n) = nat_digits n"
  by (rule filter_True) (auto dest: nat_digits_all_digits not_digit_dot)

lemma dec_split2: "10 * (10 * (n div 100) + n div 10 mod 10) + n mod 10 = (n::nat)"
proof -
  have "n div 100 = n div 10 div 10" using div_mult2_eq[of n 10 10] by simp
  then have "10 * (n div 100) + n div 10 mod 10 = n div 10" by (simp only: mult_div_mod_eq)
  then show ?thesis by (simp only: mult_div_mod_eq)
qed

lemma dec_split3:
  "10 * (10 * (10 * (n div 1000) + n div 100 mod 10) + n div 10 mod 10) + n mod 10 = (n::nat)"
proof -
  have "n div 1000 = n div 100 div 10" using div_mult2_eq[of n 100 10] by simp
  then have "10 * (n div 1000) + n div 100 mod 10 = n div 100" by (simp only: mult_div_mod_eq)
  then show ?thesis by (simp only: dec_split2)
qed

lemma digits_val_digit: "d < 10 \<Longrightarrow> digits_val (xs @ [digit_char d]) = 10 * digits_val xs + d"
  by (simp add: digits_val_snoc of_char_digit_char)

lemma decimal3_value: "digits_val (filter (\<lambda>c. c \<noteq> CHR ''.'') (decimal3 n)) = n"
proof -
  have d: "n div 100 mod 10 < 10" "n div 10 mod 10 < 10" "n mod 10 < 10" by simp_all
  have ne: "digit_char (n div 100 mod 10) \<noteq> CHR ''.''" "digit_char (n div 10 mod 10) \<noteq> CHR ''.''"
    "digit_char (n mod 10) \<noteq> CHR ''.''"
    using d digit_char_not_dot by blast+
  have "filter (\<lambda>c. c \<noteq> CHR ''.'') (decimal3 n) =
      ((nat_digits (n div 1000) @ [digit_char (n div 100 mod 10)]) @ [digit_char (n div 10 mod 10)]) @ [digit_char (n mod 10)]"
    using ne by (simp add: decimal3_def filter_dot_nat_digits)
  then have "digits_val (filter (\<lambda>c. c \<noteq> CHR ''.'') (decimal3 n)) =
      10 * (10 * (10 * (n div 1000) + n div 100 mod 10) + n div 10 mod 10) + n mod 10"
    by (simp only: digits_val_digit[OF d(1)] digits_val_digit[OF d(2)] digits_val_digit[OF d(3)]
          digits_val_nat_digits)
  then show ?thesis by (simp only: dec_split3)
qed

lemma decimal2_value: "digits_val (filter (\<lambda>c. c \<noteq> CHR ''.'') (decimal2 n)) = n"
proof -
  have d: "n div 10 mod 10 < 10" "n mod 10 < 10" by simp_all
  have ne: "digit_char (n div 10 mod 10) \<noteq> CHR ''.''" "digit_char (n mod 10) \<noteq> CHR ''.''"
    using d digit_char_not_dot by blast+
  have "filter (\<lambda>c. c \<noteq> CHR ''.'') (decimal2 n) =
      (nat_digits (n div 100) @ [digit_char (n div 10 mod 10)]) @ [digit_char (n mod 10)]"
    using ne by (simp add: decimal2_def filter_dot_nat_digits)
  then have "digits_val (filter (\<lambda>c. c \<noteq> CHR ''.'') (decimal2 n)) =
      10 * (10 * (n div 100) + n div 10 mod 10) + n mod 10"
    by (simp only: digits_val_digit[OF d(1)] digits_val_digit[OF d(2)] digits_val_nat_digits)
  then show ?thesis by (simp only: dec_split2)
qed

lemma decimal3_inj: "decimal3 m = decimal3 n \<Longrightarrow> m = n"
  by (metis decimal3_value)

lemma decimal2_inj: "decimal2 m = decimal2 n \<Longrightarrow> m = n"
  by (metis decimal2_value)

lemma decimal3_no_underscore: "c \<in> set (decimal3 n) \<Longrightarrow> c \<noteq> CHR ''_''"
proof -
  have d: "n div 100 mod 10 < 10" "n div 10 mod 10 < 10" "n mod 10 < 10" by simp_all
  assume "c \<in> set (decimal3 n)"
  then consider "c \<in> set (nat_digits (n div 1000))" | "c = CHR ''.''"
    | "c = digit_char (n div 100 mod 10)" | "c = digit_char (n div 10 mod 10)" | "c = digit_char (n mod 10)"
    by (auto simp: decimal3_def)
  then show ?thesis
    using d by cases (auto dest: nat_digits_all_digits not_digit_underscore simp: digit_char_not_underscore)
qed

lemma cell_id_inj:
  assumes "cell_id i j = cell_id i' j'" "0 \<le> i" "0 \<le> i'" "0 \<le> j" "0 \<le> j'"
  shows "i = i' \<and> j = j'"
proof -
  let ?P = "\<lambda>c. c \<noteq> CHR ''_''"
  have eq: "decimal3 (nat (9 * i)) @ CHR ''_'' # decimal2 (nat j) =
            decimal3 (nat (9 * i')) @ CHR ''_'' # decimal2 (nat j')"
    using assms(1) by (simp add: cell_id_def)
  have tw: "takeWhile ?P (decimal3 n @ CHR ''_'' # r) = decimal3 n" for n r
    by (simp add: takeWhile_append2 decimal3_no_underscore)
  have dw: "dropWhile ?P (decimal3 n @ CHR ''_'' # r) = CHR ''_'' # r" for n r
    by (simp add: dropWhile_append2 decimal3_no_underscore)
  from eq have "takeWhile ?P (decimal3 (nat (9 * i)) @ CHR ''_'' # decimal2 (nat j)) =
                takeWhile ?P (decimal3 (nat (9 * i')) @ CHR ''_'' # decimal2 (nat j'))" by simp
  then have "decimal3 (nat (9 * i)) = decimal3 (nat (9 * i'))" by (simp only: tw)
  then have a: "nat (9 * i) = nat (9 * i')" by (rule decimal3_inj)
  from eq have "dropWhile ?P (decimal3 (nat (9 * i)) @ CHR ''_'' # decimal2 (nat j)) =
                dropWhile ?P (decimal3 (nat (9 * i')) @ CHR ''_'' # decimal2 (nat j'))" by simp
  then have "decimal2 (nat j) = decimal2 (nat j')" by (simp only: dw) simp
  then have b: "nat j = nat j'" by (rule decimal2_inj)
  from a have "int (nat (9 * i)) = int (nat (9 * i'))" by simp
  then have "i = i'" using assms(2,3) by simp
  moreover from b have "int (nat j) = int (nat j')" by simp
  then have "j = j'" using assms(4,5) by simp
  ultimately show ?thesis by simp
qed

section \<open>The identifier of a coordinate in the region\<close>

lemma isInTaiwanBounds_iff:
  "isInTaiwanBounds lat lon \<longleftrightarrow>
     (\<exists>a b. lat = Num a \<and> lon = Num b \<and> 43 / 2 \<le> a \<and> a \<le> 51 / 2 \<and> 119 \<le> b \<and> b \<le> 245 / 2)"
  by (cases lat; cases lon)
     (auto simp: isInTaiwanBounds_def TAIWAN_BOUNDS_def js_ge_def js_le_def)

lemma isInTaiwanBounds_Num:
  "isInTaiwanBounds (Num a) (Num b) \<longleftrightarrow> 43 / 2 \<le> a \<and> a \<le> 51 / 2 \<and> 119 \<le> b \<and> b \<le> 245 / 2"
  by (auto simp: isInTaiwanBounds_def TAIWAN_BOUNDS_def js_ge_def js_le_def)

lemma coordinateToGridId_cell:
  assumes "isInTaiwanBounds lat lon"
  shows "\<exists>p q. js_div lat GRID_SIZE_LAT = Num p \<and> js_div lon GRID_SIZE_LON = Num q \<and>
           2388 \<le> \<lfloor>p\<rfloor> \<and> \<lfloor>p\<rfloor> \<le> 2833 \<and> 11900 \<le> \<lfloor>q\<rfloor> \<and> \<lfloor>q\<rfloor> \<le> 12250 \<and>
           coordinateToGridId lat lon = Some (cell_id \<lfloor>p\<rfloor> \<lfloor>q\<rfloor>)"
proof -
  from assms obtain a b where ab: "lat = Num a" "lon = Num b"
    and r: "43 / 2 \<le> a" "a \<le> 51 / 2" "119 \<le> b" "b \<le> 245 / 2"
    unfolding isInTaiwanBounds_iff by blast
  from lat_quotient[OF r(1,2)] obtain p where p: "js_div (Num a) GRID_SIZE_LAT = Num p"
    "2388 \<le> p" "p < 2834" by blast
  from lon_quotient[OF r(3,4)] obtain q where q: "js_div (Num b) GRID_SIZE_LON = Num q"
    "11900 \<le> q" "q < 12251" by blast
  have ip: "2388 \<le> \<lfloor>p\<rfloor>" "\<lfloor>p\<rfloor> \<le> 2833" using p(2,3) by (simp_all add: le_floor_iff floor_le_iff)
  have iq: "11900 \<le> \<lfloor>q\<rfloor>" "\<lfloor>q\<rfloor> \<le> 12250" using q(2,3) by (simp_all add: le_floor_iff floor_le_iff)
  from lat_corner[OF ip] obtain g where g: "js_mul (Num (of_int \<lfloor>p\<rfloor>)) GRID_SIZE_LAT = Num g"
    "16 \<le> g" "g < 32" "\<lfloor>g * 1000 + 1 / 2\<rfloor> = 9 * \<lfloor>p\<rfloor>" by blast
  from lon_corner[OF iq] obtain h where h: "js_mul (Num (of_int \<lfloor>q\<rfloor>)) GRID_SIZE_LON = Num h"
    "64 \<le> h" "h < 128" "\<lfloor>h * 100 + 1 / 2\<rfloor> = \<lfloor>q\<rfloor>" by blast
  have t3: "toFixed 3 (Num g) = decimal3 (nat (9 * \<lfloor>p\<rfloor>))"
    using g(2,3) by (intro toFixed_3[OF _ _ g(4)]) simp_all
  have t2: "toFixed 2 (Num h) = decimal2 (nat \<lfloor>q\<rfloor>)"
    using h(2,3) by (intro toFixed_2[OF _ _ h(4)]) simp_all
  have "coordinateToGridId lat lon = Some (cell_id \<lfloor>p\<rfloor> \<lfloor>q\<rfloor>)"
    using assms by (simp add: coordinateToGridId_def ab p(1) q(1) g(1) h(1) t3 t2 cell_id_def)
  then show ?thesis using p(1) q(1) ip iq ab by blast
qed

section \<open>The explored set\<close>

lemma split_on_nonempty [simp]: "split_on c s \<noteq> []"
  by (induction s) (auto split: list.splits)

lemma coordinateToGridId_NaN [simp]:
  "coordinateToGridId NaN lon = None" "coordinateToGridId lat NaN = None"
  by (simp_all add: coordinateToGridId_def isInTaiwanBounds_iff)

lemma coordinateToGridId_not_empty: "coordinateToGridId lat lon \<noteq> Some []"
  by (simp add: coordinateToGridId_def Let_def)

lemma forEach_body_record_cell:
  "forEach_body acc fp = (case record_cell fp of None \<Rightarrow> acc | Some g \<Rightarrow> Set_add g acc)"
proof (cases "coordinate fp")
  case None
  then show ?thesis by (simp add: forEach_body_def record_cell_def)
next
  case (Some c)
  show ?thesis
  proof (cases "c = []")
    case True
    with Some show ?thesis by (simp add: forEach_body_def record_cell_def)
  next
    case False
    define lat where "lat = parseFloat (split_on (CHR '','') c ! 0)"
    define lon where "lon = parseFloat (if 2 \<le> length (split_on (CHR '','') c) then split_on (CHR '','') c ! 1 else ''undefined'')"
    have rc: "record_cell fp = coordinateToGridId lat lon"
      using Some False by (simp add: record_cell_def lat_def lon_def Let_def)
    have fb: "forEach_body acc fp =
        (if isNaN lat \<or> isNaN lon then acc
         else (case coordinateToGridId lat lon of None \<Rightarrow> acc
               | Some g \<Rightarrow> if g = [] then acc else Set_add g acc))"
      using Some False by (simp add: forEach_body_def lat_def lon_def Let_def)
    show ?thesis
    proof (cases "isNaN lat \<or> isNaN lon")
      case True
      then have "coordinateToGridId lat lon = None" by (auto simp: isNaN_def)
      with True show ?thesis by (simp add: fb rc)
    next
      case nn: False
      show ?thesis
      proof (cases "coordinateToGridId lat lon")
        case None
        then show ?thesis using nn by (simp add: fb rc)
      next
        case (Some g)
        then have "g \<noteq> []" using coordinateToGridId_not_empty[of lat lon] by auto
        with Some nn show ?thesis by (simp add: fb rc)
      qed
    qed
  qed
qed

lemma set_Set_add [simp]: "set (Set_add x xs) = insert x (set xs)"
  by (auto simp: Set_add_def)

lemma distinct_Set_add [simp]: "distinct (Set_add x xs) = distinct xs"
  by (auto simp: Set_add_def)

lemma foldl_forEach_set:
  "set (foldl forEach_body acc fps) = set acc \<union> {g. \<exists>fp \<in> set fps. record_cell fp = Some g}"
  by (induction fps arbitrary: acc) (auto simp: forEach_body_record_cell split: option.splits)

lemma foldl_forEach_distinct:
  "distinct acc \<Longrightarrow> distinct (foldl forEach_body acc fps)"
  by (induction fps arbitrary: acc) (auto simp: forEach_body_record_cell split: option.splits)

lemma exploredGridIds_set:
  "set (exploredGridIds fps) = {g. \<exists>fp \<in> set fps. record_cell fp = Some g}"
  by (simp add: exploredGridIds_def foldl_forEach_set)

lemma exploredGridIds_distinct: "distinct (exploredGridIds fps)"
  by (simp add: exploredGridIds_def foldl_forEach_distinct)

lemma exploredGridIds_length: "length (exploredGridIds fps) = card (set (exploredGridIds fps))"
  by (simp add: distinct_card exploredGridIds_distinct)

lemma exploredGridIds_snoc:
  "exploredGridIds (fps @ [fp]) =
     (case record_cell fp of None \<Rightarrow> exploredGridIds fps | Some g \<Rightarrow> Set_add g (exploredGridIds fps))"
  unfolding exploredGridIds_def by (simp add: forEach_body_record_cell)

section \<open>Parsing an identifier\<close>




lemma round_double_not_NaN [simp]: "round_double x \<noteq> NaN"
  by (simp add: round_double_def Let_def)












section \<open>The handlers that record a visit\<close>

lemma find_append:
  "List.find P (xs @ ys) = (case List.find P xs of None \<Rightarrow> List.find P ys | Some x \<Rightarrow> Some x)"
  by (induction xs) auto


lemma POST_record_inside:
  assumes "requireAuth s = Some u" "isInTaiwanBounds lat lon"
  shows "POST_record s (Some lat) (Some lon) now store =
     (case findFirst u (numberToString lat @ '','' @ numberToString lon) store of
        Some f \<Rightarrow> (Success_updated, touch (fp_id f) now store)
      | None \<Rightarrow> (Success_created,
           store @ [\<lparr> fp_id = fresh_id store, user_id = u,
                      coordinate = Some (numberToString lat @ '','' @ numberToString lon),
                      Create_time = Some now, Update_time = Some now \<rparr>]))"
proof -
  from coordinateToGridId_cell[OF assms(2)] obtain g where g: "coordinateToGridId lat lon = Some g" by blast
  then have "g \<noteq> []" using coordinateToGridId_not_empty[of lat lon] by auto
  with g assms(1) show ?thesis by (simp add: POST_record_def Let_def split: option.splits)
qed



lemma POST_record_two_keys:
  assumes u: "requireAuth s = Some u"
    and b1: "isInTaiwanBounds lat1 lon1" and b2: "isInTaiwanBounds lat2 lon2"
    and ne: "numberToString lat1 @ '','' @ numberToString lon1 \<noteq> numberToString lat2 @ '','' @ numberToString lon2"
    and n1: "findFirst u (numberToString lat1 @ '','' @ numberToString lon1) store = None"
    and n2: "findFirst u (numberToString lat2 @ '','' @ numberToString lon2) store = None"
  shows "\<exists>r1 r2. POST_record s (Some lat1) (Some lon1) t1 store = (Success_created, store @ [r1]) \<and>
           POST_record s (Some lat2) (Some lon2) t2 (store @ [r1]) = (Success_created, store @ [r1, r2]) \<and>
           coordinate r1 = Some (numberToString lat1 @ '','' @ numberToString lon1) \<and>
           coordinate r2 = Some (numberToString lat2 @ '','' @ numberToString lon2)"
proof -
  define K1 where "K1 = numberToString lat1 @ '','' @ numberToString lon1"
  define K2 where "K2 = numberToString lat2 @ '','' @ numberToString lon2"
  define r1 where "r1 = \<lparr> fp_id = fresh_id store, user_id = u, coordinate = Some K1,
                      Create_time = Some t1, Update_time = Some t1 \<rparr>"
  define r2 where "r2 = \<lparr> fp_id = fresh_id (store @ [r1]), user_id = u, coordinate = Some K2,
                      Create_time = Some t2, Update_time = Some t2 \<rparr>"
  have p1: "POST_record s (Some lat1) (Some lon1) t1 store = (Success_created, store @ [r1])"
    using POST_record_inside[OF u b1, of t1 store] n1 by (simp add: K1_def r1_def)
  have "findFirst u K2 (store @ [r1]) = None"
    using n2 ne by (simp add: findFirst_def find_append K1_def K2_def r1_def)
  then have p2: "POST_record s (Some lat2) (Some lon2) t2 (store @ [r1]) = (Success_created, store @ [r1, r2])"
    using POST_record_inside[OF u b2, of t2 "store @ [r1]"] by (simp add: K2_def r2_def)
  show ?thesis using p1 p2 by (intro exI[of _ r1] exI[of _ r2]) (simp add: r1_def r2_def K1_def K2_def)
qed

section \<open>Rounding is monotone\<close>

lemma rhe_floor_cases: "round_half_even y = \<lfloor>y\<rfloor> \<or> round_half_even y = \<lfloor>y\<rfloor> + 1"
  unfolding round_half_even_def Let_def by auto

lemma rhe_mono: "y1 \<le> y2 \<Longrightarrow> round_half_even y1 \<le> round_half_even y2"
proof -
  assume le: "y1 \<le> y2"
  have f: "\<lfloor>y1\<rfloor> \<le> \<lfloor>y2\<rfloor>" using le by (rule floor_mono)
  show ?thesis
  proof (cases "\<lfloor>y1\<rfloor> = \<lfloor>y2\<rfloor>")
    case True
    then show ?thesis using le unfolding round_half_even_def Let_def by auto
  next
    case False
    then have "\<lfloor>y1\<rfloor> + 1 \<le> \<lfloor>y2\<rfloor>" using f by simp
    moreover have "round_half_even y1 \<le> \<lfloor>y1\<rfloor> + 1" using rhe_floor_cases[of y1] by auto
    moreover have "\<lfloor>y2\<rfloor> \<le> round_half_even y2" using rhe_floor_cases[of y2] by auto
    ultimately show ?thesis by linarith
  qed
qed

lemma rhe_near: "\<bar>y - of_int n\<bar> < 1 / 2 \<Longrightarrow> round_half_even y = n"
proof -
  assume a: "\<bar>y - of_int n\<bar> < 1 / 2"
  then have "of_int n - 1 / 2 < y" "y < of_int n + 1 / 2" by (auto simp: abs_if split: if_splits)
  then have "n \<le> round_half_even y" "round_half_even y \<le> n"
    using rhe_ge_half rhe_le_half by blast+
  then show ?thesis by simp
qed

lemma ilog2_mono:
  assumes "0 < x" "x \<le> y"
  shows "ilog2 x \<le> ilog2 y"
proof -
  have y0: "0 < y" using assms by simp
  from ilog2_bounds[OF assms(1)] have "2 powi (ilog2 x) \<le> x" by simp
  moreover from ilog2_bounds[OF y0] have "y < 2 powi (ilog2 y + 1)" by simp
  ultimately have "(2::rat) powi (ilog2 x) < 2 powi (ilog2 y + 1)" using assms(2) by linarith
  then have "ilog2 x < ilog2 y + 1" by (rule powi_less_cancel)
  then show ?thesis by simp
qed

text \<open>The value \<open>round_double\<close> rounds to, before the overflow test.\<close>

lemma powi_nat: "0 \<le> t \<Longrightarrow> (2::rat) powi t = of_int (2 ^ nat t)"
  by (simp add: power_int_nonneg_exp)

lemma rounded_mono:
  assumes x0: "0 < x" and xy: "x \<le> y"
  defines "ex \<equiv> max (ilog2 x - 52) (- 1074)" and "ey \<equiv> max (ilog2 y - 52) (- 1074)"
  shows "of_int (round_half_even (x / 2 powi ex)) * 2 powi ex
           \<le> of_int (round_half_even (y / 2 powi ey)) * (2::rat) powi ey"
proof -
  have y0: "0 < y" using x0 xy by simp
  have il: "ilog2 x \<le> ilog2 y" using ilog2_mono[OF x0 xy] .
  have ee: "ex \<le> ey" unfolding ex_def ey_def using il by simp
  have px: "0 < (2::rat) powi ex" and py: "0 < (2::rat) powi ey" by simp_all
  show ?thesis
  proof (cases "ex = ey")
    case True
    have "x / 2 powi ey \<le> y / 2 powi ey" using xy py by (simp add: divide_right_mono)
    then have "round_half_even (x / 2 powi ey) \<le> round_half_even (y / 2 powi ey)" by (rule rhe_mono)
    then have "(of_int (round_half_even (x / 2 powi ey)) :: rat) \<le> of_int (round_half_even (y / 2 powi ey))"
      by (simp only: of_int_le_iff)
    then show ?thesis unfolding True using py by (simp add: mult_right_mono)
  next
    case False
    then have lt: "ex < ey" using ee by simp
    then have eyv: "ey = ilog2 y - 52" unfolding ex_def ey_def by (auto simp: max_def split: if_splits)
    define t where "t = max (ilog2 x + 1) ex"
    have t_le: "t \<le> ilog2 y" unfolding t_def using lt eyv ex_def by (auto simp: max_def split: if_splits)
    have tex: "0 \<le> t - ex" unfolding t_def by simp
    \<comment> \<open>the smaller one rounds to at most \<open>2 powi t\<close>\<close>
    have "x < 2 powi (ilog2 x + 1)" using ilog2_bounds[OF x0] by simp
    also have "\<dots> \<le> 2 powi t" by (rule powi_le_mono) (simp add: t_def)
    finally have xt: "x \<le> 2 powi t" by simp
    have split: "(2::rat) powi t = 2 powi (t - ex) * 2 powi ex"
      using power_int_add[of "2::rat" "t - ex" ex] by simp
    have "x / 2 powi ex \<le> 2 powi (t - ex)"
      using xt px unfolding split by (simp add: field_simps)
    also have "\<dots> = of_int (2 ^ nat (t - ex))" using tex by (rule powi_nat)
    finally have "round_half_even (x / 2 powi ex) \<le> 2 ^ nat (t - ex)" by (rule rhe_le)
    then have "(of_int (round_half_even (x / 2 powi ex)) :: rat) \<le> of_int (2 ^ nat (t - ex))"
      by (simp only: of_int_le_iff)
    then have "of_int (round_half_even (x / 2 powi ex)) * (2::rat) powi ex \<le> of_int (2 ^ nat (t - ex)) * 2 powi ex"
      using px by (simp add: mult_right_mono)
    also have "\<dots> = 2 powi t" using split powi_nat[OF tex] by simp
    finally have A: "of_int (round_half_even (x / 2 powi ex)) * (2::rat) powi ex \<le> 2 powi t" .
    \<comment> \<open>the larger one rounds to at least \<open>2 powi (ilog2 y)\<close>\<close>
    have split2: "(2::rat) powi (ilog2 y) = 2 powi 52 * 2 powi ey"
      using power_int_add[of "2::rat" 52 ey] eyv by simp
    have "2 powi (ilog2 y) \<le> y" using ilog2_bounds[OF y0] by simp
    then have "2 powi 52 \<le> y / 2 powi ey" using py unfolding split2 by (simp add: field_simps)
    moreover have "(2::rat) powi 52 = of_int (2 ^ 52)" by simp
    ultimately have "of_int (2 ^ 52) \<le> y / 2 powi ey" by simp
    then have "2 ^ 52 \<le> round_half_even (y / 2 powi ey)" by (rule rhe_ge)
    then have "(of_int (2 ^ 52) :: rat) \<le> of_int (round_half_even (y / 2 powi ey))"
      by (simp only: of_int_le_iff)
    then have h1: "of_int (2 ^ 52) * (2::rat) powi ey \<le> of_int (round_half_even (y / 2 powi ey)) * 2 powi ey"
      using py by (simp add: mult_right_mono)
    have h2: "of_int (2 ^ 52) * (2::rat) powi ey = 2 powi (ilog2 y)" using split2 by simp
    have B: "2 powi (ilog2 y) \<le> of_int (round_half_even (y / 2 powi ey)) * (2::rat) powi ey"
      using h1 unfolding h2 .
    have "(2::rat) powi t \<le> 2 powi (ilog2 y)" using t_le by (rule powi_le_mono)
    with A B show ?thesis by linarith
  qed
qed

lemma round_double_nonneg: "0 \<le> x \<Longrightarrow> nonneg (round_double x)"
proof -
  assume x: "0 \<le> x"
  have "0 \<le> round_half_even (x / 2 powi e)" for e
    by (rule rhe_ge) (use x in simp)
  then have "0 \<le> (of_int (round_half_even (x / 2 powi e)) :: rat) * 2 powi e" for e
    by simp
  then show ?thesis unfolding round_double_def Let_def using x by auto
qed

lemma round_double_mono:
  assumes "0 \<le> x" "x \<le> y"
  shows "js_le (round_double x) (round_double y)"
proof (cases "x = 0")
  case True
  have "nonneg (round_double y)" using assms by (intro round_double_nonneg) simp
  then show ?thesis unfolding True
    by (cases "round_double y") (simp_all add: round_double_def js_le_def)
next
  case False
  then have x0: "0 < x" using assms(1) by simp
  then have y0: "0 < y" using assms(2) by simp
  define rx where "rx = of_int (round_half_even (x / 2 powi (max (ilog2 x - 52) (- 1074)))) * (2::rat) powi (max (ilog2 x - 52) (- 1074))"
  define ry where "ry = of_int (round_half_even (y / 2 powi (max (ilog2 y - 52) (- 1074)))) * (2::rat) powi (max (ilog2 y - 52) (- 1074))"
  have le: "rx \<le> ry" unfolding rx_def ry_def using rounded_mono[OF x0 assms(2)] .
  have rx0: "0 \<le> rx" unfolding rx_def by (intro mult_nonneg_nonneg) (use x0 in \<open>simp_all add: rhe_ge\<close>)
  have ry0: "0 \<le> ry" using le rx0 by simp
  have dx: "round_double x = (if 2 ^ 1024 \<le> rx then PosInf else Num rx)"
    using x0 rx0 by (simp add: round_double_def Let_def rx_def[symmetric] abs_of_pos abs_of_nonneg)
  have dy: "round_double y = (if 2 ^ 1024 \<le> ry then PosInf else Num ry)"
    using y0 ry0 by (simp add: round_double_def Let_def ry_def[symmetric] abs_of_pos abs_of_nonneg)
  show ?thesis unfolding dx dy using le by (auto simp: js_le_def)
qed

section \<open>Adding the step\<close>

lemma add_lat_step:
  assumes "x = of_int X / 2 ^ 48" "16 \<le> x" "x + cLat < 32"
  shows "js_add (Num x) GRID_SIZE_LAT = Num (x + stepLat)"
proof -
  define z where "z = x + cLat"
  have c: "0 < cLat" by (simp add: cLat_def)
  have lo: "2 powi 4 \<le> \<bar>z\<bar>" and hi: "\<bar>z\<bar> < 2 powi (4 + 1)"
    using assms(2,3) c unfolding z_def by (simp_all add: abs_if)
  have rd: "round_double z = Num (of_int (round_half_even (z / 2 powi (4 - 52))) * 2 powi (4 - 52))"
    by (rule round_double_normal[OF lo hi]) simp_all
  define w where "w = z * 2 ^ 48"
  have e: "z / 2 powi (4 - 52) = w" by (simp add: w_def power_int_minus field_simps)
  have zz: "w = of_int (X + 2533274790396) - 197 / 2048"
    unfolding w_def z_def assms(1) cLat_def by simp
  have "round_half_even w = X + 2533274790396"
    by (rule rhe_near) (simp add: zz)
  then have "round_double z = Num (of_int (X + 2533274790396) / 2 ^ 48)"
    unfolding rd e by (simp add: power_int_minus field_simps)
  also have "of_int (X + 2533274790396) / 2 ^ 48 = x + stepLat"
    unfolding assms(1) stepLat_def by (simp add: field_simps)
  finally show ?thesis unfolding GRID_SIZE_LAT_eq z_def by simp
qed

lemma add_lon_step:
  assumes "y = of_int Y / 2 ^ 46" "64 \<le> y" "y + cLon < 128"
  shows "js_add (Num y) GRID_SIZE_LON = Num (y + stepLon)"
proof -
  define z where "z = y + cLon"
  have c: "0 < cLon" by (simp add: cLon_def)
  have lo: "2 powi 6 \<le> \<bar>z\<bar>" and hi: "\<bar>z\<bar> < 2 powi (6 + 1)"
    using assms(2,3) c unfolding z_def by (simp_all add: abs_if)
  have rd: "round_double z = Num (of_int (round_half_even (z / 2 powi (6 - 52))) * 2 powi (6 - 52))"
    by (rule round_double_normal[OF lo hi]) simp_all
  define w where "w = z * 2 ^ 46"
  have e: "z / 2 powi (6 - 52) = w" by (simp add: w_def power_int_minus field_simps)
  have zz: "w = of_int (Y + 703687441777) - 2949 / 8192"
    unfolding w_def z_def assms(1) cLon_def by simp
  have "round_half_even w = Y + 703687441777"
    by (rule rhe_near) (simp add: zz)
  then have "round_double z = Num (of_int (Y + 703687441777) / 2 ^ 46)"
    unfolding rd e by (simp add: power_int_minus field_simps)
  also have "of_int (Y + 703687441777) / 2 ^ 46 = y + stepLon"
    unfolding assms(1) stepLon_def by (simp add: field_simps)
  finally show ?thesis unfolding GRID_SIZE_LON_eq z_def by simp
qed



text \<open>
  After \<open>k\<close> additions the value has drifted from the decimal corner of row \<open>i + k\<close> by far
  less than half a unit of the last printed decimal.
\<close>

lemma toFixed_3_drift:
  assumes "of_int i * (9 / 1000) - 1 / 10 ^ 10 \<le> g" "g \<le> of_int i * (9 / 1000) + 1 / 10 ^ 10"
    and "1 \<le> i" "i \<le> 3000" "k \<le> 1000"
  shows "toFixed 3 (Num (g + of_nat k * stepLat)) = decimal3 (nat (9 * (i + int k)))"
proof -
  define x where "x = g + of_nat k * stepLat"
  define S :: rat where "S = of_int i + of_nat k"
  have k0: "(0::rat) \<le> of_nat k" and k1: "of_nat k \<le> (1000::rat)" using assms(5) by simp_all
  have i0: "(1::rat) \<le> of_int i" and i1: "of_int i \<le> (3000::rat)" using assms(3,4) by simp_all
  have S0: "0 \<le> S" and S1: "S \<le> 20000" using k0 k1 i0 i1 unfolding S_def by simp_all
  have sl: "of_nat k * (9 / 1000) \<le> of_nat k * stepLat"
    using k0 by (intro mult_left_mono) (simp_all add: stepLat_def)
  have "of_nat k * stepLat \<le> of_nat k * (9 / 1000 + 1 / 10 ^ 14)"
    using k0 by (intro mult_left_mono) (simp_all add: stepLat_def)
  also have "\<dots> = of_nat k * (9 / 1000) + of_nat k * (1 / 10 ^ 14)" by (simp add: algebra_simps)
  also have "\<dots> \<le> of_nat k * (9 / 1000) + 1000 * (1 / 10 ^ 14)"
    using k1 by (intro add_left_mono mult_right_mono) simp_all
  finally have su: "of_nat k * stepLat \<le> of_nat k * (9 / 1000) + 1 / 10 ^ 11" by simp
  have "S * (9 / 1000) - 1 / 10 ^ 10 = (of_int i * (9 / 1000) - 1 / 10 ^ 10) + of_nat k * (9 / 1000)"
    unfolding S_def by (simp add: algebra_simps)
  also have "\<dots> \<le> g + of_nat k * stepLat" using assms(1) sl by (rule add_mono)
  finally have xl: "S * (9 / 1000) - 1 / 10 ^ 10 \<le> x" unfolding x_def .
  have "x \<le> (of_int i * (9 / 1000) + 1 / 10 ^ 10) + (of_nat k * (9 / 1000) + 1 / 10 ^ 11)"
    unfolding x_def using assms(2) su by (rule add_mono)
  also have "\<dots> = S * (9 / 1000) + (1 / 10 ^ 10 + 1 / 10 ^ 11)" unfolding S_def by (simp add: algebra_simps)
  also have "\<dots> \<le> S * (9 / 1000) + 2 / 10 ^ 10" by simp
  finally have xu: "x \<le> S * (9 / 1000) + 2 / 10 ^ 10" .
  have eqS: "(of_int (9 * (i + int k)) :: rat) = 9 * S" unfolding S_def by simp
  have "(S * (9 / 1000) - 1 / 10 ^ 10) * 1000 \<le> x * 1000" using xl by (intro mult_right_mono) simp_all
  moreover have "(S * (9 / 1000) - 1 / 10 ^ 10) * 1000 = 9 * S - 1000 / 10 ^ 10" by (simp add: algebra_simps)
  ultimately have "9 * S - 1000 / 10 ^ 10 \<le> x * 1000" by simp
  then have f1: "of_int (9 * (i + int k)) \<le> x * 1000 + 1 / 2" unfolding eqS by simp
  have "x * 1000 \<le> (S * (9 / 1000) + 2 / 10 ^ 10) * 1000" using xu by (intro mult_right_mono) simp_all
  moreover have "(S * (9 / 1000) + 2 / 10 ^ 10) * 1000 = 9 * S + 2 * 1000 / 10 ^ 10" by (simp add: algebra_simps)
  ultimately have "x * 1000 \<le> 9 * S + 2 * 1000 / 10 ^ 10" by simp
  then have f2: "x * 1000 + 1 / 2 < of_int (9 * (i + int k)) + 1" unfolding eqS by simp
  have fl: "\<lfloor>x * 1000 + 1 / 2\<rfloor> = 9 * (i + int k)" using f1 f2 by (rule floor_unique)
  have "0 \<le> 9 * S - 1000 / 10 ^ 10 + 1000 / 10 ^ 10" using S0 by simp
  have "S * (9 / 1000) \<le> 20000 * (9 / 1000)" using S1 by (intro mult_right_mono) simp_all
  then have xlt: "x < 10 ^ 21" using xu by simp
  have x0: "0 \<le> x"
  proof -
    have "1 \<le> S" using i0 k0 unfolding S_def by simp
    then have "1 * (9 / 1000) \<le> S * (9 / 1000)" by (intro mult_right_mono) simp_all
    then show ?thesis using xl by simp
  qed
  show ?thesis unfolding x_def[symmetric] by (rule toFixed_3[OF x0 xlt fl])
qed

lemma toFixed_2_drift:
  assumes "of_int j * (1 / 100) - 1 / 10 ^ 10 \<le> g" "g \<le> of_int j * (1 / 100) + 1 / 10 ^ 10"
    and "1 \<le> j" "j \<le> 13000" "k \<le> 1000"
  shows "toFixed 2 (Num (g + of_nat k * stepLon)) = decimal2 (nat ((j + int k)))"
proof -
  define x where "x = g + of_nat k * stepLon"
  define S :: rat where "S = of_int j + of_nat k"
  have k0: "(0::rat) \<le> of_nat k" and k1: "of_nat k \<le> (1000::rat)" using assms(5) by simp_all
  have i0: "(1::rat) \<le> of_int j" and i1: "of_int j \<le> (13000::rat)" using assms(3,4) by simp_all
  have S0: "0 \<le> S" and S1: "S \<le> 20000" using k0 k1 i0 i1 unfolding S_def by simp_all
  have sl: "of_nat k * (1 / 100) \<le> of_nat k * stepLon"
    using k0 by (intro mult_left_mono) (simp_all add: stepLon_def)
  have "of_nat k * stepLon \<le> of_nat k * (1 / 100 + 1 / 10 ^ 14)"
    using k0 by (intro mult_left_mono) (simp_all add: stepLon_def)
  also have "\<dots> = of_nat k * (1 / 100) + of_nat k * (1 / 10 ^ 14)" by (simp add: algebra_simps)
  also have "\<dots> \<le> of_nat k * (1 / 100) + 1000 * (1 / 10 ^ 14)"
    using k1 by (intro add_left_mono mult_right_mono) simp_all
  finally have su: "of_nat k * stepLon \<le> of_nat k * (1 / 100) + 1 / 10 ^ 11" by simp
  have "S * (1 / 100) - 1 / 10 ^ 10 = (of_int j * (1 / 100) - 1 / 10 ^ 10) + of_nat k * (1 / 100)"
    unfolding S_def by (simp add: algebra_simps)
  also have "\<dots> \<le> g + of_nat k * stepLon" using assms(1) sl by (rule add_mono)
  finally have xl: "S * (1 / 100) - 1 / 10 ^ 10 \<le> x" unfolding x_def .
  have "x \<le> (of_int j * (1 / 100) + 1 / 10 ^ 10) + (of_nat k * (1 / 100) + 1 / 10 ^ 11)"
    unfolding x_def using assms(2) su by (rule add_mono)
  also have "\<dots> = S * (1 / 100) + (1 / 10 ^ 10 + 1 / 10 ^ 11)" unfolding S_def by (simp add: algebra_simps)
  also have "\<dots> \<le> S * (1 / 100) + 2 / 10 ^ 10" by simp
  finally have xu: "x \<le> S * (1 / 100) + 2 / 10 ^ 10" .
  have eqS: "(of_int ((j + int k)) :: rat) = S" unfolding S_def by simp
  have "(S * (1 / 100) - 1 / 10 ^ 10) * 100 \<le> x * 100" using xl by (intro mult_right_mono) simp_all
  moreover have "(S * (1 / 100) - 1 / 10 ^ 10) * 100 = S - 100 / 10 ^ 10" by (simp add: algebra_simps)
  ultimately have "S - 100 / 10 ^ 10 \<le> x * 100" by simp
  then have f1: "of_int ((j + int k)) \<le> x * 100 + 1 / 2" unfolding eqS by simp
  have "x * 100 \<le> (S * (1 / 100) + 2 / 10 ^ 10) * 100" using xu by (intro mult_right_mono) simp_all
  moreover have "(S * (1 / 100) + 2 / 10 ^ 10) * 100 = S + 2 * 100 / 10 ^ 10" by (simp add: algebra_simps)
  ultimately have "x * 100 \<le> S + 2 * 100 / 10 ^ 10" by simp
  then have f2: "x * 100 + 1 / 2 < of_int ((j + int k)) + 1" unfolding eqS by simp
  have fl: "\<lfloor>x * 100 + 1 / 2\<rfloor> = (j + int k)" using f1 f2 by (rule floor_unique)
  have "0 \<le> S - 100 / 10 ^ 10 + 100 / 10 ^ 10" using S0 by simp
  have "S * (1 / 100) \<le> 20000 * (1 / 100)" using S1 by (intro mult_right_mono) simp_all
  then have xlt: "x < 10 ^ 21" using xu by simp
  have x0: "0 \<le> x"
  proof -
    have "1 \<le> S" using i0 k0 unfolding S_def by simp
    then have "1 * (1 / 100) \<le> S * (1 / 100)" by (intro mult_right_mono) simp_all
    then show ?thesis using xl by simp
  qed
  show ?thesis unfolding x_def[symmetric] by (rule toFixed_2[OF x0 xlt fl])
qed

section \<open>The enumeration loops in closed form\<close>

lemma js_le_Num: "js_le (Num a) (Num b) = (a \<le> b)"
  by (auto simp: js_le_def)

lemma allLonLoop_run:
  assumes "y = of_int Y / 2 ^ 46" "64 \<le> y"
    and "\<And>j. j < n \<Longrightarrow> y + of_nat j * stepLon < 245 / 2"
    and "\<not> y + of_nat n * stepLon < 245 / 2"
  shows "allLonLoop lat (Num y) acc =
    Some (acc @ map (\<lambda>j. ''grid_'' @ toFixed 3 lat @ ''_'' @ toFixed 2 (Num (y + of_nat j * stepLon))) [0..<n])"
  using assms
proof (induction n arbitrary: y Y acc)
  case 0
  then have "\<not> js_lt (Num y) (maxLon TAIWAN_BOUNDS)" by (simp add: TAIWAN_BOUNDS_def)
  then show ?case by (subst allLonLoop.simps) simp
next
  case (Suc n)
  have lt: "y < 245 / 2" using Suc.prems(3)[of 0] by simp
  have c: "cLon < 1" by (simp add: cLon_def)
  have add: "js_add (Num y) GRID_SIZE_LON = Num (y + stepLon)"
    using Suc.prems(1,2) lt c by (intro add_lon_step) simp_all
  have s0: "0 \<le> stepLon" by (simp add: stepLon_def)
  have g': "y + stepLon = of_int (Y + 703687441777) / 2 ^ 46"
    unfolding Suc.prems(1) stepLon_def by (simp add: field_simps)
  have r: "y + stepLon + of_nat j * stepLon = y + of_nat (Suc j) * stepLon" for j
    by (simp add: algebra_simps)
  have ih: "allLonLoop lat (Num (y + stepLon)) acc' =
    Some (acc' @ map (\<lambda>j. ''grid_'' @ toFixed 3 lat @ ''_'' @ toFixed 2 (Num (y + stepLon + of_nat j * stepLon))) [0..<n])"
    for acc'
  proof (rule Suc.IH[OF g'])
    show "64 \<le> y + stepLon" using Suc.prems(2) s0 by simp
    show "y + stepLon + of_nat j * stepLon < 245 / 2" if "j < n" for j
      unfolding r using Suc.prems(3)[of "Suc j"] that by simp
    show "\<not> y + stepLon + of_nat n * stepLon < 245 / 2"
      unfolding r using Suc.prems(4) .
  qed
  have "allLonLoop lat (Num y) acc =
      allLonLoop lat (Num (y + stepLon)) (acc @ [''grid_'' @ toFixed 3 lat @ ''_'' @ toFixed 2 (Num y)])"
    using lt by (subst allLonLoop.simps) (simp add: TAIWAN_BOUNDS_def add)
  also have "\<dots> = Some (acc @ map (\<lambda>j. ''grid_'' @ toFixed 3 lat @ ''_'' @ toFixed 2 (Num (y + of_nat j * stepLon))) [0..<Suc n])"
    unfolding ih r by (simp only: map_upt_Suc) simp
  finally show ?case .
qed


lemma allLatLoop_run:
  assumes "x = of_int X / 2 ^ 48" "16 \<le> x"
    and "\<And>k. k < n \<Longrightarrow> x + of_nat k * stepLat < 51 / 2"
    and "\<not> x + of_nat n * stepLat < 51 / 2"
    and inner: "\<And>lat acc. allLonLoop lat startLon acc =
                  Some (acc @ map (\<lambda>c. ''grid_'' @ toFixed 3 lat @ ''_'' @ c) cols)"
  shows "allLatLoop startLon (Num x) acc =
    Some (acc @ concat (map (\<lambda>k. map (\<lambda>c. ''grid_'' @ toFixed 3 (Num (x + of_nat k * stepLat)) @ ''_'' @ c) cols) [0..<n]))"
  using assms(1-4)
proof (induction n arbitrary: x X acc)
  case 0
  then have "\<not> js_lt (Num x) (maxLat TAIWAN_BOUNDS)" by (simp add: TAIWAN_BOUNDS_def)
  then show ?case by (subst allLatLoop.simps) simp
next
  case (Suc n)
  have lt: "x < 51 / 2" using Suc.prems(3)[of 0] by simp
  have c: "cLat < 1" by (simp add: cLat_def)
  have add: "js_add (Num x) GRID_SIZE_LAT = Num (x + stepLat)"
    using Suc.prems(1,2) lt c by (intro add_lat_step) simp_all
  have s0: "0 \<le> stepLat" by (simp add: stepLat_def)
  have g': "x + stepLat = of_int (X + 2533274790396) / 2 ^ 48"
    unfolding Suc.prems(1) stepLat_def by (simp add: field_simps)
  have r: "x + stepLat + of_nat k * stepLat = x + of_nat (Suc k) * stepLat" for k
    by (simp add: algebra_simps)
  have ih: "allLatLoop startLon (Num (x + stepLat)) acc' =
    Some (acc' @ concat (map (\<lambda>k. map (\<lambda>c. ''grid_'' @ toFixed 3 (Num (x + stepLat + of_nat k * stepLat)) @ ''_'' @ c) cols) [0..<n]))"
    for acc'
  proof (rule Suc.IH[OF g'])
    show "16 \<le> x + stepLat" using Suc.prems(2) s0 by simp
    show "x + stepLat + of_nat k * stepLat < 51 / 2" if "k < n" for k
      unfolding r using Suc.prems(3)[of "Suc k"] that by simp
    show "\<not> x + stepLat + of_nat n * stepLat < 51 / 2"
      unfolding r using Suc.prems(4) .
  qed
  have "allLatLoop startLon (Num x) acc =
      allLatLoop startLon (Num (x + stepLat)) (acc @ map (\<lambda>c. ''grid_'' @ toFixed 3 (Num x) @ ''_'' @ c) cols)"
    using lt by (subst allLatLoop.simps) (simp add: TAIWAN_BOUNDS_def add inner)
  also have "\<dots> = Some (acc @ concat (map (\<lambda>k. map (\<lambda>c. ''grid_'' @ toFixed 3 (Num (x + of_nat k * stepLat)) @ ''_'' @ c) cols) [0..<Suc n]))"
    unfolding ih r by (simp only: map_upt_Suc) simp
  finally show ?case .
qed


section \<open>The row and the column of the code against the exact quotients\<close>






section \<open>Evaluation at concrete inputs\<close>

lemmas parse_eval = parseFloat_def is_ws_def is_digit_def digits_val_def exponent_part_def Let_def

lemmas digits_eval = cell_id_def decimal3_def decimal2_def nat_digits.simps digit_char_def

lemma coordinateToGridId_eval:
  assumes "isInTaiwanBounds (Num a) (Num b)"
    and "js_div (Num a) GRID_SIZE_LAT = Num p" and "js_div (Num b) GRID_SIZE_LON = Num q"
  shows "coordinateToGridId (Num a) (Num b) = Some (cell_id \<lfloor>p\<rfloor> \<lfloor>q\<rfloor>)"
  using coordinateToGridId_cell[OF assms(1)] assms(2,3) by auto

lemma quot_25: "js_div (Num 25) GRID_SIZE_LAT = Num (6108397932088889 / 2199023255552)"
  by (simp add: GRID_SIZE_LAT_eq cLat_def round_eval)

lemma quot_119_0703125: "js_div (Num (15241 / 128)) GRID_SIZE_LON = Num (381025 / 32)"
  by (simp add: GRID_SIZE_LON_eq cLon_def round_eval)

lemma parse_24_993: "parseFloat ''24.993'' = Num (7034904092929425 / 281474976710656)"
  by (simp add: parse_eval) (simp add: round_eval)

lemma parse_119_07: "parseFloat ''119.07'' = Num (2094701592308613 / 17592186044416)"
  by (simp add: parse_eval) (simp add: round_eval)

lemma quot_24_993: "js_div (Num (7034904092929425 / 281474976710656)) GRID_SIZE_LAT = Num 2777"
  by (simp add: GRID_SIZE_LAT_eq cLat_def round_eval)

lemma quot_119_07:
  "js_div (Num (2094701592308613 / 17592186044416)) GRID_SIZE_LON = Num (6545942475964415 / 549755813888)"
  by (simp add: GRID_SIZE_LON_eq cLon_def round_eval)

lemma id_25_119_0703125: "coordinateToGridId (Num 25) (Num (15241 / 128)) = Some ''grid_24.993_119.07''"
proof -
  have "isInTaiwanBounds (Num 25) (Num (15241 / 128))" by (simp add: isInTaiwanBounds_Num)
  from coordinateToGridId_eval[OF this quot_25 quot_119_0703125]
  show ?thesis by (simp add: digits_eval)
qed

lemma corner_24_993_119_07:
  "gridIdToCoordinate ''grid_24.993_119.07'' =
     Some (Num (7034904092929425 / 281474976710656), Num (2094701592308613 / 17592186044416))"
proof -
  have "split_on (CHR ''_'') ''grid_24.993_119.07'' = [''grid'', ''24.993'', ''119.07'']" by simp
  then show ?thesis
    by (simp add: gridIdToCoordinate_def parse_24_993 parse_119_07 isNaN_def)
qed

lemma id_corner_24_993_119_07:
  "coordinateToGridId (Num (7034904092929425 / 281474976710656)) (Num (2094701592308613 / 17592186044416))
     = Some ''grid_24.993_119.06''"
proof -
  have "isInTaiwanBounds (Num (7034904092929425 / 281474976710656)) (Num (2094701592308613 / 17592186044416))"
    by (simp add: isInTaiwanBounds_Num)
  from coordinateToGridId_eval[OF this quot_24_993 quot_119_07]
  show ?thesis by (simp add: digits_eval)
qed

lemma quot_21_5: "js_div (Num (43 / 2)) GRID_SIZE_LAT = Num (5253222221596445 / 2199023255552)"
  by (simp add: GRID_SIZE_LAT_eq cLat_def round_eval)

lemma quot_120: "js_div (Num 120) GRID_SIZE_LON = Num 12000"
  by (simp add: GRID_SIZE_LON_eq cLon_def round_eval)

lemma id_21_5_120: "coordinateToGridId (Num (43 / 2)) (Num 120) = Some ''grid_21.492_120.00''"
proof -
  have "isInTaiwanBounds (Num (43 / 2)) (Num 120)" by (simp add: isInTaiwanBounds_Num)
  from coordinateToGridId_eval[OF this quot_21_5 quot_120]
  show ?thesis by (simp add: digits_eval)
qed

lemma parse_21_492: "parseFloat ''21.492'' = Num (6049460199465419 / 281474976710656)"
  by (simp add: parse_eval) (simp add: round_eval)

lemma parse_120_00: "parseFloat ''120.00'' = Num 120"
  by (simp add: parse_eval) (simp add: round_eval)

lemma half_lat: "js_div GRID_SIZE_LAT (Num 2) = Num (5188146770730811 / 1152921504606846976)"
  by (simp add: GRID_SIZE_LAT_eq cLat_def round_eval)

lemma half_lon: "js_div GRID_SIZE_LON (Num 2) = Num (5764607523034235 / 1152921504606846976)"
  by (simp add: GRID_SIZE_LON_eq cLon_def round_eval)

lemma center_21_492_120_00:
  "gridIdToCenter ''grid_21.492_120.00'' =
     Some (Num (6050726836860617 / 281474976710656), Num (1055575143130071 / 8796093022208))"
proof -
  have "split_on (CHR ''_'') ''grid_21.492_120.00'' = [''grid'', ''21.492'', ''120.00'']" by simp
  then have "gridIdToCoordinate ''grid_21.492_120.00'' = Some (Num (6049460199465419 / 281474976710656), Num 120)"
    by (simp add: gridIdToCoordinate_def parse_21_492 parse_120_00 isNaN_def)
  then show ?thesis
    by (simp add: gridIdToCenter_def half_lat half_lon) (simp add: round_eval)
qed

lemma shortest_skip:
  "k < 17 \<Longrightarrow> digit_candidates x k = [] \<Longrightarrow> k' = Suc k \<Longrightarrow> shortest_digits x k = shortest_digits x k'"
  by (subst shortest_digits.simps) simp

lemma shortest_hit:
  "k < 17 \<Longrightarrow> digit_candidates x k = [c] \<Longrightarrow> shortest_digits x k = (fst c, k, snd c)"
  by (subst shortest_digits.simps) simp

lemma toString_21_4965: "numberToString (Num (6050726836860617 / 281474976710656)) = ''21.4965''"
proof -
  let ?x = "6050726836860617 / 281474976710656 :: rat"
  have il: "ilog10 ?x = 1" by (simp add: ilog10_def compute_floorlog)
  have c1: "digit_candidates ?x 1 = []" by (simp add: digit_candidates_def il) (simp add: round_eval)
  have c2: "digit_candidates ?x 2 = []" by (simp add: digit_candidates_def il) (simp add: round_eval)
  have c3: "digit_candidates ?x 3 = []" by (simp add: digit_candidates_def il) (simp add: round_eval)
  have c4: "digit_candidates ?x 4 = []" by (simp add: digit_candidates_def il) (simp add: round_eval)
  have c5: "digit_candidates ?x 5 = []" by (simp add: digit_candidates_def il) (simp add: round_eval)
  have c6: "digit_candidates ?x 6 = [(2, 214965)]" by (simp add: digit_candidates_def il) (simp add: round_eval)
  have "shortest_digits ?x 1 = shortest_digits ?x 2" by (rule shortest_skip[OF _ c1]) simp_all
  also have "\<dots> = shortest_digits ?x 3" by (rule shortest_skip[OF _ c2]) simp_all
  also have "\<dots> = shortest_digits ?x 4" by (rule shortest_skip[OF _ c3]) simp_all
  also have "\<dots> = shortest_digits ?x 5" by (rule shortest_skip[OF _ c4]) simp_all
  also have "\<dots> = shortest_digits ?x 6" by (rule shortest_skip[OF _ c5]) simp_all
  also have "\<dots> = (2, 6, 214965)" using shortest_hit[OF _ c6] by simp
  finally have "positiveToString ?x = ''21.4965''"
    by (simp add: positiveToString_def nat_digits.simps digit_char_def)
  then show ?thesis by (simp add: numberToString_def)
qed

lemma toString_120_005: "numberToString (Num (1055575143130071 / 8796093022208)) = ''120.005''"
proof -
  let ?x = "1055575143130071 / 8796093022208 :: rat"
  have il: "ilog10 ?x = 2" by (simp add: ilog10_def compute_floorlog)
  have c1: "digit_candidates ?x 1 = []" by (simp add: digit_candidates_def il) (simp add: round_eval)
  have c2: "digit_candidates ?x 2 = []" by (simp add: digit_candidates_def il) (simp add: round_eval)
  have c3: "digit_candidates ?x 3 = []" by (simp add: digit_candidates_def il) (simp add: round_eval)
  have c4: "digit_candidates ?x 4 = []" by (simp add: digit_candidates_def il) (simp add: round_eval)
  have c5: "digit_candidates ?x 5 = []" by (simp add: digit_candidates_def il) (simp add: round_eval)
  have c6: "digit_candidates ?x 6 = [(3, 120005)]" by (simp add: digit_candidates_def il) (simp add: round_eval)
  have "shortest_digits ?x 1 = shortest_digits ?x 2" by (rule shortest_skip[OF _ c1]) simp_all
  also have "\<dots> = shortest_digits ?x 3" by (rule shortest_skip[OF _ c2]) simp_all
  also have "\<dots> = shortest_digits ?x 4" by (rule shortest_skip[OF _ c3]) simp_all
  also have "\<dots> = shortest_digits ?x 5" by (rule shortest_skip[OF _ c4]) simp_all
  also have "\<dots> = shortest_digits ?x 6" by (rule shortest_skip[OF _ c5]) simp_all
  also have "\<dots> = (3, 6, 120005)" using shortest_hit[OF _ c6] by simp
  finally have "positiveToString ?x = ''120.005''"
    by (simp add: positiveToString_def nat_digits.simps digit_char_def)
  then show ?thesis by (simp add: numberToString_def)
qed






lemma parse_25_033: "parseFloat ''25.033'' = Num (1761540772999463 / 70368744177664)"
  by (simp add: parse_eval) (simp add: round_eval)

lemma parse_121_5654: "parseFloat ''121.5654'' = Num (8554404533455395 / 70368744177664)"
  by (simp add: parse_eval) (simp add: round_eval)

lemma parse_25_0335: "parseFloat ''25.0335'' = Num (7046303829486207 / 281474976710656)"
  by (simp add: parse_eval) (simp add: round_eval)

lemma parse_121_5658: "parseFloat ''121.5658'' = Num (4277216340476533 / 35184372088832)"
  by (simp add: parse_eval) (simp add: round_eval)

lemma quot_25_033: "js_div (Num (1761540772999463 / 70368744177664)) GRID_SIZE_LAT = Num (6116461017359247 / 2199023255552)"
  by (simp add: GRID_SIZE_LAT_eq cLat_def round_eval)

lemma quot_121_5654: "js_div (Num (8554404533455395 / 70368744177664)) GRID_SIZE_LON = Num (6683128541762027 / 549755813888)"
  by (simp add: GRID_SIZE_LON_eq cLon_def round_eval)

lemma quot_25_0335: "js_div (Num (7046303829486207 / 281474976710656)) GRID_SIZE_LAT = Num (5563 / 2)"
  by (simp add: GRID_SIZE_LAT_eq cLat_def round_eval)

lemma quot_121_5658: "js_div (Num (4277216340476533 / 35184372088832)) GRID_SIZE_LON = Num (6683150531994583 / 549755813888)"
  by (simp add: GRID_SIZE_LON_eq cLon_def round_eval)

lemma in_region_25_033: "isInTaiwanBounds (Num (1761540772999463 / 70368744177664)) (Num (8554404533455395 / 70368744177664))"
  by (simp add: isInTaiwanBounds_Num)

lemma in_region_25_0335: "isInTaiwanBounds (Num (7046303829486207 / 281474976710656)) (Num (4277216340476533 / 35184372088832))"
  by (simp add: isInTaiwanBounds_Num)

lemma id_25_033_121_5654:
  "coordinateToGridId (Num (1761540772999463 / 70368744177664)) (Num (8554404533455395 / 70368744177664)) = Some ''grid_25.029_121.56''"
  using coordinateToGridId_eval[OF in_region_25_033 quot_25_033 quot_121_5654]
  by (simp add: digits_eval)

lemma id_25_0335_121_5658:
  "coordinateToGridId (Num (7046303829486207 / 281474976710656)) (Num (4277216340476533 / 35184372088832)) = Some ''grid_25.029_121.56''"
  using coordinateToGridId_eval[OF in_region_25_0335 quot_25_0335 quot_121_5658]
  by (simp add: digits_eval)





lemma shortest_tie:
  "k < 17 \<Longrightarrow> digit_candidates x k = [c, d] \<Longrightarrow>
   candidate_error x k d = candidate_error x k c \<Longrightarrow> even (snd d) \<Longrightarrow> odd (snd c) \<Longrightarrow>
   shortest_digits x k = (fst d, k, snd d)"
  by (subst shortest_digits.simps) simp


lemma toString_tie_16: "numberToString (Num (524291 / 65536)) = ''8.000045776367188''"
proof -
  let ?x = "524291 / 65536 :: rat"
  have il: "ilog10 ?x = 0" by (simp add: ilog10_def compute_floorlog)
  have c1: "digit_candidates ?x 1 = []" by (simp add: digit_candidates_def il) (simp add: round_eval)
  have c2: "digit_candidates ?x 2 = []" by (simp add: digit_candidates_def il) (simp add: round_eval)
  have c3: "digit_candidates ?x 3 = []" by (simp add: digit_candidates_def il) (simp add: round_eval)
  have c4: "digit_candidates ?x 4 = []" by (simp add: digit_candidates_def il) (simp add: round_eval)
  have c5: "digit_candidates ?x 5 = []" by (simp add: digit_candidates_def il) (simp add: round_eval)
  have c6: "digit_candidates ?x 6 = []" by (simp add: digit_candidates_def il) (simp add: round_eval)
  have c7: "digit_candidates ?x 7 = []" by (simp add: digit_candidates_def il) (simp add: round_eval)
  have c8: "digit_candidates ?x 8 = []" by (simp add: digit_candidates_def il) (simp add: round_eval)
  have c9: "digit_candidates ?x 9 = []" by (simp add: digit_candidates_def il) (simp add: round_eval)
  have c10: "digit_candidates ?x 10 = []" by (simp add: digit_candidates_def il) (simp add: round_eval)
  have c11: "digit_candidates ?x 11 = []" by (simp add: digit_candidates_def il) (simp add: round_eval)
  have c12: "digit_candidates ?x 12 = []" by (simp add: digit_candidates_def il) (simp add: round_eval)
  have c13: "digit_candidates ?x 13 = []" by (simp add: digit_candidates_def il) (simp add: round_eval)
  have c14: "digit_candidates ?x 14 = []" by (simp add: digit_candidates_def il) (simp add: round_eval)
  have c15: "digit_candidates ?x 15 = []" by (simp add: digit_candidates_def il) (simp add: round_eval)
  have c16: "digit_candidates ?x 16 = [(1, 8000045776367187), (1, 8000045776367188)]"
    by (simp add: digit_candidates_def il) (simp add: round_eval)
  have "shortest_digits ?x 1 = shortest_digits ?x 2" by (rule shortest_skip[OF _ c1]) simp_all
  also have "\<dots> = shortest_digits ?x 3" by (rule shortest_skip[OF _ c2]) simp_all
  also have "\<dots> = shortest_digits ?x 4" by (rule shortest_skip[OF _ c3]) simp_all
  also have "\<dots> = shortest_digits ?x 5" by (rule shortest_skip[OF _ c4]) simp_all
  also have "\<dots> = shortest_digits ?x 6" by (rule shortest_skip[OF _ c5]) simp_all
  also have "\<dots> = shortest_digits ?x 7" by (rule shortest_skip[OF _ c6]) simp_all
  also have "\<dots> = shortest_digits ?x 8" by (rule shortest_skip[OF _ c7]) simp_all
  also have "\<dots> = shortest_digits ?x 9" by (rule shortest_skip[OF _ c8]) simp_all
  also have "\<dots> = shortest_digits ?x 10" by (rule shortest_skip[OF _ c9]) simp_all
  also have "\<dots> = shortest_digits ?x 11" by (rule shortest_skip[OF _ c10]) simp_all
  also have "\<dots> = shortest_digits ?x 12" by (rule shortest_skip[OF _ c11]) simp_all
  also have "\<dots> = shortest_digits ?x 13" by (rule shortest_skip[OF _ c12]) simp_all
  also have "\<dots> = shortest_digits ?x 14" by (rule shortest_skip[OF _ c13]) simp_all
  also have "\<dots> = shortest_digits ?x 15" by (rule shortest_skip[OF _ c14]) simp_all
  also have "\<dots> = shortest_digits ?x 16" by (rule shortest_skip[OF _ c15]) simp_all
  also have "\<dots> = (1, 16, 8000045776367188)"
    using shortest_tie[OF _ c16] by (simp add: candidate_error_def)
  finally have "positiveToString ?x = ''8.000045776367188''"
    by (simp add: positiveToString_def nat_digits.simps digit_char_def)
  then show ?thesis by (simp add: numberToString_def)
qed

lemma parse_nbsp_25_033: "parseFloat (CHR 0xA0 # ''25.033'') = Num (1761540772999463 / 70368744177664)"
  by (simp add: parse_eval) (simp add: round_eval)











section \<open>Claims about the identifier of a coordinate\<close>








section \<open>Claims about corners and centres\<close>

text \<open>
  C9 (round trip). The claim: for every id produced from a coordinate of the region the
  corner parsed from the id, encoded again by the same floor and format, gives the id
  back. The code at \<open>lat = 25\<close>, \<open>lon = 119.0703125\<close>: the id is
  \<open>grid_24.993_119.07\<close>, its corner is the pair of doubles nearest to 24.993 and 119.07,
  and encoding that corner gives \<open>grid_24.993_119.06\<close>, because the double division
  \<open>119.07 / 0.01\<close> returns a number below 11907.
\<close>

theorem C9_round_trip_fails_at_119_07:
  "coordinateToGridId (Num 25) (Num (15241 / 128)) = Some ''grid_24.993_119.07'' \<and>
   gridIdToCoordinate ''grid_24.993_119.07'' =
     Some (Num (7034904092929425 / 281474976710656), Num (2094701592308613 / 17592186044416)) \<and>
   js_div (Num (2094701592308613 / 17592186044416)) GRID_SIZE_LON = Num (6545942475964415 / 549755813888) \<and>
   Math_floor (Num (6545942475964415 / 549755813888)) = Num 11906 \<and>
   coordinateToGridId (Num (7034904092929425 / 281474976710656)) (Num (2094701592308613 / 17592186044416))
     = Some ''grid_24.993_119.06''"
  using id_25_119_0703125 corner_24_993_119_07 quot_119_07 id_corner_24_993_119_07
  by simp

theorem C9_round_trip_fails_at_119_07_witness:
  "coordinateToGridId (Num (7034904092929425 / 281474976710656)) (Num (2094701592308613 / 17592186044416))
     \<noteq> coordinateToGridId (Num 25) (Num (15241 / 128))"
  using C9_round_trip_fails_at_119_07 by simp

text \<open>
  C10 (cell-centre stability). The claim: the centre of the cell of a coordinate of the
  region is in the region and has the same id. The code at \<open>lat = 21.5\<close>, \<open>lon = 120\<close>
  (in the region): the id is \<open>grid_21.492_120.00\<close>, the centre is (21.4965, 120.005),
  which is south of \<open>minLat = 21.5\<close>, so \<open>coordinateToGridId\<close> of the centre is
  \<open>null\<close>. Through the handlers: \<open>POST /api/footprint/explore-grid\<close> stores the row
  \<open>21.4965,120.005\<close> and reports success, and the coverage computation skips that row.
\<close>

theorem C10_center_of_edge_cell_outside:
  "isInTaiwanBounds (Num (43 / 2)) (Num 120) \<and>
   coordinateToGridId (Num (43 / 2)) (Num 120) = Some ''grid_21.492_120.00'' \<and>
   gridIdToCenter ''grid_21.492_120.00'' =
     Some (Num (6050726836860617 / 281474976710656), Num (1055575143130071 / 8796093022208)) \<and>
   \<not> isInTaiwanBounds (Num (6050726836860617 / 281474976710656)) (Num (1055575143130071 / 8796093022208)) \<and>
   coordinateToGridId (Num (6050726836860617 / 281474976710656)) (Num (1055575143130071 / 8796093022208)) = None \<and>
   POST_explore_grid (Some \<lparr> user = Some \<lparr> user_email = None, user_ident = Some ''u'' \<rparr> \<rparr>)
       (Some (Num (43 / 2))) (Some (Num 120)) []
     = (Explored False 1 ''grid_21.492_120.00'' (Some ''21.4965,120.005''),
        [\<lparr> fp_id = 1, user_id = ''u'', coordinate = Some ''21.4965,120.005'',
            Create_time = None, Update_time = None \<rparr>]) \<and>
   exploredGridIds [\<lparr> fp_id = 1, user_id = ''u'', coordinate = Some ''21.4965,120.005'',
            Create_time = None, Update_time = None \<rparr>] = []"
proof -
  have b: "isInTaiwanBounds (Num (43 / 2)) (Num 120)" by (simp add: isInTaiwanBounds_Num)
  have nb: "\<not> isInTaiwanBounds (Num (6050726836860617 / 281474976710656)) (Num (1055575143130071 / 8796093022208))"
    by (simp add: isInTaiwanBounds_Num)
  have n: "coordinateToGridId (Num (6050726836860617 / 281474976710656)) (Num (1055575143130071 / 8796093022208)) = None"
    using nb by (simp add: coordinateToGridId_def)
  have post: "POST_explore_grid (Some \<lparr> user = Some \<lparr> user_email = None, user_ident = Some ''u'' \<rparr> \<rparr>)
       (Some (Num (43 / 2))) (Some (Num 120)) []
     = (Explored False 1 ''grid_21.492_120.00'' (Some ''21.4965,120.005''),
        [\<lparr> fp_id = 1, user_id = ''u'', coordinate = Some ''21.4965,120.005'',
            Create_time = None, Update_time = None \<rparr>])"
    by (simp add: POST_explore_grid_def session_user_id_def b id_21_5_120 center_21_492_120_00
          toString_21_4965 toString_120_005 findFirst_def fresh_id_def Let_def)
  have sp: "split_on (CHR '','') ''21.4965,120.005'' = [''21.4965'', ''120.005'']" by simp
  have p1: "parseFloat ''21.4965'' = Num (6050726836860617 / 281474976710656)"
    by (simp add: parse_eval) (simp add: round_eval)
  have p2: "parseFloat ''120.005'' = Num (1055575143130071 / 8796093022208)"
    by (simp add: parse_eval) (simp add: round_eval)
  have ex: "exploredGridIds [\<lparr> fp_id = 1, user_id = ''u'', coordinate = Some ''21.4965,120.005'',
            Create_time = None, Update_time = None \<rparr>] = []"
    by (simp add: exploredGridIds_def forEach_body_def sp p1 p2 isNaN_def n)
  show ?thesis using b id_21_5_120 center_21_492_120_00 nb n post ex by simp
qed

theorem C10_center_of_edge_cell_outside_witness:
  "coordinateToGridId (Num (6050726836860617 / 281474976710656)) (Num (1055575143130071 / 8796093022208))
     \<noteq> coordinateToGridId (Num (43 / 2)) (Num 120)"
  using C10_center_of_edge_cell_outside by simp

section \<open>The effect of the two recording handlers on the store\<close>







section \<open>Claims about the explored set and about recording a visit\<close>

text \<open>
  C8, as the claim states it, fails: a row whose coordinate string is not two
  comma-joined decimal numbers is not always skipped. The row \<open>25.033,121.5654,9\<close> has
  three parts, and the aggregation reads the first two and counts the cell.
\<close>

theorem C8_counterexample:
  "\<not> comma_joined_decimals ''25.033,121.5654,9'' \<and>
   exploredGridIds [\<lparr> fp_id = 1, user_id = ''u'', coordinate = Some ''25.033,121.5654,9'',
                      Create_time = None, Update_time = None \<rparr>] = [''grid_25.029_121.56'']"
proof -
  have sp: "split_on (CHR '','') ''25.033,121.5654,9'' = [''25.033'', ''121.5654'', ''9'']" by simp
  have "\<not> comma_joined_decimals ''25.033,121.5654,9''"
    by (simp add: comma_joined_decimals_def sp)
  moreover have "exploredGridIds [\<lparr> fp_id = 1, user_id = ''u'', coordinate = Some ''25.033,121.5654,9'',
                      Create_time = None, Update_time = None \<rparr>] = [''grid_25.029_121.56'']"
    by (simp add: exploredGridIds_def forEach_body_def sp parse_25_033 parse_121_5654 isNaN_def
          id_25_033_121_5654 Set_add_def)
  ultimately show ?thesis by simp
qed

text \<open>
  C8, amended. The aggregation is total (no step of it can fail) and its result has no
  duplicates. Its set is the set of the cells of the rows, where the cell of a row is
  \<open>coordinateToGridId\<close> of \<open>parseFloat\<close> of the first and of the second comma-separated part
  of the coordinate string: a row is skipped exactly when its coordinate is \<open>null\<close> or
  empty, or one of the two parts does not start with a number (\<open>parseFloat\<close> is \<open>NaN\<close>), or
  the coordinate read is outside the region. Text after the number and white space before
  it (the no-break space included) do not matter. The result does not depend on the order
  of the rows (same set, same size), and the two rows \<open>25.033,121.5654\<close> and
  \<open>25.0335,121.5658\<close> give an explored set of size 1.
\<close>

theorem C8_explored_set:
  "distinct (exploredGridIds fps) \<and>
   set (exploredGridIds fps) = {g. \<exists>fp \<in> set fps. record_cell fp = Some g} \<and>
   (record_cell fp = None \<longrightarrow> exploredGridIds (fps @ [fp]) = exploredGridIds fps) \<and>
   (record_cell fp = None \<longleftrightarrow>
      coordinate fp = None \<or> coordinate fp = Some [] \<or>
      (\<exists>c. coordinate fp = Some c \<and>
         \<not> isInTaiwanBounds (parseFloat (split_on (CHR '','') c ! 0))
              (parseFloat (if 2 \<le> length (split_on (CHR '','') c)
                           then split_on (CHR '','') c ! 1 else ''undefined'')))) \<and>
   (\<not> isInTaiwanBounds NaN x \<and> \<not> isInTaiwanBounds x NaN) \<and>
   (set fps = set fps' \<longrightarrow>
      set (exploredGridIds fps) = set (exploredGridIds fps') \<and>
      length (exploredGridIds fps) = length (exploredGridIds fps')) \<and>
   exploredGridIds
     [\<lparr> fp_id = 1, user_id = ''u'', coordinate = Some ''25.033,121.5654'',
         Create_time = None, Update_time = None \<rparr>,
      \<lparr> fp_id = 2, user_id = ''u'', coordinate = Some ''25.0335,121.5658'',
         Create_time = None, Update_time = None \<rparr>] = [''grid_25.029_121.56''] \<and>
   exploredGridIds
     [\<lparr> fp_id = 1, user_id = ''u'', coordinate = Some (CHR 0xA0 # ''25.033,121.5654''),
         Create_time = None, Update_time = None \<rparr>] = [''grid_25.029_121.56'']"
proof (intro conjI impI)
  show "distinct (exploredGridIds fps)" by (rule exploredGridIds_distinct)
  show "set (exploredGridIds fps) = {g. \<exists>fp \<in> set fps. record_cell fp = Some g}"
    by (rule exploredGridIds_set)
  show "exploredGridIds (fps @ [fp]) = exploredGridIds fps" if "record_cell fp = None"
    using that by (simp add: exploredGridIds_snoc)
  show "record_cell fp = None \<longleftrightarrow>
      coordinate fp = None \<or> coordinate fp = Some [] \<or>
      (\<exists>c. coordinate fp = Some c \<and>
         \<not> isInTaiwanBounds (parseFloat (split_on (CHR '','') c ! 0))
              (parseFloat (if 2 \<le> length (split_on (CHR '','') c)
                           then split_on (CHR '','') c ! 1 else ''undefined'')))"
    by (cases "coordinate fp") (auto simp: record_cell_def coordinateToGridId_def Let_def)
  show "\<not> isInTaiwanBounds NaN x" "\<not> isInTaiwanBounds x NaN"
    by (simp_all add: isInTaiwanBounds_iff)
  show "set (exploredGridIds fps) = set (exploredGridIds fps')" if "set fps = set fps'"
    using that by (simp add: exploredGridIds_set)
  show "length (exploredGridIds fps) = length (exploredGridIds fps')" if "set fps = set fps'"
    using that by (simp add: exploredGridIds_length exploredGridIds_set)
  have sp1: "split_on (CHR '','') ''25.033,121.5654'' = [''25.033'', ''121.5654'']" by simp
  have sp2: "split_on (CHR '','') ''25.0335,121.5658'' = [''25.0335'', ''121.5658'']" by simp
  show "exploredGridIds
     [\<lparr> fp_id = 1, user_id = ''u'', coordinate = Some ''25.033,121.5654'',
         Create_time = None, Update_time = None \<rparr>,
      \<lparr> fp_id = 2, user_id = ''u'', coordinate = Some ''25.0335,121.5658'',
         Create_time = None, Update_time = None \<rparr>] = [''grid_25.029_121.56'']"
    by (simp add: exploredGridIds_def forEach_body_def sp1 sp2 parse_25_033 parse_121_5654
          parse_25_0335 parse_121_5658 isNaN_def id_25_033_121_5654 id_25_0335_121_5658 Set_add_def)
  have sp3: "split_on (CHR '','') (CHR 0xA0 # ''25.033,121.5654'') = [CHR 0xA0 # ''25.033'', ''121.5654'']"
    by simp
  show "exploredGridIds
     [\<lparr> fp_id = 1, user_id = ''u'', coordinate = Some (CHR 0xA0 # ''25.033,121.5654''),
         Create_time = None, Update_time = None \<rparr>] = [''grid_25.029_121.56'']"
    by (simp add: exploredGridIds_def forEach_body_def sp3 parse_nbsp_25_033 parse_121_5654
          isNaN_def id_25_033_121_5654 Set_add_def)
qed

theorem C8_explored_set_witness:
  "record_cell \<lparr> fp_id = 3, user_id = ''u'', coordinate = Some ''abc,121'',
                   Create_time = None, Update_time = None \<rparr> = None \<and>
   exploredGridIds
     ([\<lparr> fp_id = 1, user_id = ''u'', coordinate = Some ''25.033,121.5654'',
          Create_time = None, Update_time = None \<rparr>] @
      [\<lparr> fp_id = 3, user_id = ''u'', coordinate = Some ''abc,121'',
          Create_time = None, Update_time = None \<rparr>])
   = exploredGridIds
       [\<lparr> fp_id = 1, user_id = ''u'', coordinate = Some ''25.033,121.5654'',
           Create_time = None, Update_time = None \<rparr>] \<and>
   set [\<lparr> fp_id = 1, user_id = ''u'', coordinate = Some ''25.033,121.5654'',
           Create_time = None, Update_time = None \<rparr>,
        \<lparr> fp_id = 2, user_id = ''u'', coordinate = Some ''25.0335,121.5658'',
           Create_time = None, Update_time = None \<rparr>]
   = set [\<lparr> fp_id = 2, user_id = ''u'', coordinate = Some ''25.0335,121.5658'',
             Create_time = None, Update_time = None \<rparr>,
          \<lparr> fp_id = 1, user_id = ''u'', coordinate = Some ''25.033,121.5654'',
             Create_time = None, Update_time = None \<rparr>] \<and>
   length (exploredGridIds
     [\<lparr> fp_id = 2, user_id = ''u'', coordinate = Some ''25.0335,121.5658'',
         Create_time = None, Update_time = None \<rparr>,
      \<lparr> fp_id = 1, user_id = ''u'', coordinate = Some ''25.033,121.5654'',
         Create_time = None, Update_time = None \<rparr>]) = 1"
proof -
  let ?r1 = "\<lparr> fp_id = 1, user_id = ''u'', coordinate = Some ''25.033,121.5654'',
                Create_time = None, Update_time = None \<rparr>"
  let ?r2 = "\<lparr> fp_id = 2, user_id = ''u'', coordinate = Some ''25.0335,121.5658'',
                Create_time = None, Update_time = None \<rparr>"
  let ?r3 = "\<lparr> fp_id = 3, user_id = ''u'', coordinate = Some ''abc,121'',
                Create_time = None, Update_time = None \<rparr>"
  have sp: "split_on (CHR '','') ''abc,121'' = [''abc'', ''121'']" by simp
  have pn: "parseFloat ''abc'' = NaN" by (simp add: parse_eval)
  have none: "record_cell ?r3 = None" by (simp add: record_cell_def sp pn)
  have sets: "set [?r1, ?r2] = set [?r2, ?r1]" by auto
  from C8_explored_set[of "[?r1]" ?r3] none
  have a: "exploredGridIds ([?r1] @ [?r3]) = exploredGridIds [?r1]" by blast
  from C8_explored_set[of "[?r1, ?r2]" ?r3 NaN "[?r2, ?r1]"] sets
  have "length (exploredGridIds [?r1, ?r2]) = length (exploredGridIds [?r2, ?r1])"
    and "exploredGridIds [?r1, ?r2] = [''grid_25.029_121.56'']" by blast+
  then have b: "length (exploredGridIds [?r2, ?r1]) = 1" by simp
  show ?thesis using none a sets b by blast
qed





section \<open>The full enumeration in closed form\<close>

lemma start_lat_all:
  "js_mul (Math_floor (js_div (minLat TAIWAN_BOUNDS) GRID_SIZE_LAT)) GRID_SIZE_LAT
     = Num (6049460199465418 / 2 ^ 48)"
  by (simp add: TAIWAN_BOUNDS_def quot_21_5) (simp add: GRID_SIZE_LAT_eq cLat_def round_eval)

lemma start_lon_all:
  "js_mul (Math_floor (js_div (minLon TAIWAN_BOUNDS) GRID_SIZE_LON)) GRID_SIZE_LON = Num 119"
  by (simp add: TAIWAN_BOUNDS_def GRID_SIZE_LON_eq cLon_def round_eval)

lemma grid_block_rows:
  "concat (map (\<lambda>k. map (\<lambda>c. ''grid_'' @ decimal3 (nat (9 * (i0 + int k))) @ ''_'' @ c)
                         (map (\<lambda>j. decimal2 (nat (j0 + int j))) [0..<nc])) [0..<nr])
     = grid_block i0 nr j0 nc"
  by (simp add: grid_block_def cell_id_def comp_def)

lemma all_columns:
  "allLonLoop lat (Num 119) acc =
     Some (acc @ map (\<lambda>c. ''grid_'' @ toFixed 3 lat @ ''_'' @ c)
                   (map (\<lambda>j. decimal2 (nat (11900 + int j))) [0..<350]))"
proof -
  have s: "(0::rat) \<le> stepLon" by (simp add: stepLon_def)
  have run: "allLonLoop lat (Num 119) acc =
    Some (acc @ map (\<lambda>j. ''grid_'' @ toFixed 3 lat @ ''_'' @ toFixed 2 (Num (119 + of_nat j * stepLon))) [0..<350])"
  proof (rule allLonLoop_run[where Y = "119 * 2 ^ 46"])
    show "(119::rat) = of_int (119 * 2 ^ 46) / 2 ^ 46" by simp
    show "(64::rat) \<le> 119" by simp
    show "119 + of_nat j * stepLon < 245 / 2" if "j < 350" for j
    proof -
      have "(of_nat j :: rat) \<le> 349" using that by simp
      then have "of_nat j * stepLon \<le> 349 * stepLon" using s by (rule mult_right_mono)
      moreover have "119 + 349 * stepLon < 245 / 2" by (simp add: stepLon_def)
      ultimately show ?thesis by linarith
    qed
    show "\<not> 119 + of_nat 350 * stepLon < 245 / 2" by (simp add: stepLon_def)
  qed
  have fx: "toFixed 2 (Num (119 + of_nat j * stepLon)) = decimal2 (nat (11900 + int j))"
    if "j < 350" for j
    by (rule toFixed_2_drift) (use that in simp_all)
  show ?thesis unfolding run by (simp add: fx)
qed

lemma all_rows:
  assumes inner: "\<And>lat acc. allLonLoop lat startLon acc =
                  Some (acc @ map (\<lambda>c. ''grid_'' @ toFixed 3 lat @ ''_'' @ c) cols)"
  shows "allLatLoop startLon (Num (6049460199465418 / 2 ^ 48)) [] =
     Some (concat (map (\<lambda>k. map (\<lambda>c. ''grid_'' @ decimal3 (nat (9 * (2388 + int k))) @ ''_'' @ c) cols)
                     [0..<446]))"
proof -
  define x :: rat where "x = 6049460199465418 / 2 ^ 48"
  have s: "(0::rat) \<le> stepLat" by (simp add: stepLat_def)
  have run: "allLatLoop startLon (Num x) [] =
    Some ([] @ concat (map (\<lambda>k. map (\<lambda>c. ''grid_'' @ toFixed 3 (Num (x + of_nat k * stepLat)) @ ''_'' @ c) cols) [0..<446]))"
  proof (rule allLatLoop_run[where X = 6049460199465418, OF _ _ _ _ inner])
    show "x = of_int 6049460199465418 / 2 ^ 48" by (simp add: x_def)
    show "16 \<le> x" by (simp add: x_def)
    show "x + of_nat k * stepLat < 51 / 2" if "k < 446" for k
    proof -
      have "(of_nat k :: rat) \<le> 445" using that by simp
      then have "of_nat k * stepLat \<le> 445 * stepLat" using s by (rule mult_right_mono)
      moreover have "x + 445 * stepLat < 51 / 2" by (simp add: stepLat_def x_def)
      ultimately show ?thesis by linarith
    qed
    show "\<not> x + of_nat 446 * stepLat < 51 / 2" by (simp add: stepLat_def x_def)
  qed
  have fx: "toFixed 3 (Num (x + of_nat k * stepLat)) = decimal3 (nat (9 * (2388 + int k)))"
    if "k < 446" for k
    by (rule toFixed_3_drift) (use that in \<open>simp_all add: x_def\<close>)
  have eq: "map (\<lambda>k. map (\<lambda>c. ''grid_'' @ toFixed 3 (Num (x + of_nat k * stepLat)) @ ''_'' @ c) cols) [0..<446]
      = map (\<lambda>k. map (\<lambda>c. ''grid_'' @ decimal3 (nat (9 * (2388 + int k))) @ ''_'' @ c) cols) [0..<446]"
    by (rule map_cong) (simp_all only: fx atLeastLessThan_iff set_upt)
  have "allLatLoop startLon (Num x) [] =
     Some (concat (map (\<lambda>k. map (\<lambda>c. ''grid_'' @ decimal3 (nat (9 * (2388 + int k))) @ ''_'' @ c) cols)
                     [0..<446]))"
    unfolding run eq by (simp only: append_Nil)
  then show ?thesis unfolding x_def .
qed

lemma getAllTaiwanGridIds_first:
  "getAllTaiwanGridIds None
     = Some (grid_block 2388 446 11900 350, Some (grid_block 2388 446 11900 350))"
proof -
  have "allLatLoop (Num 119) (Num (6049460199465418 / 2 ^ 48)) [] = Some (grid_block 2388 446 11900 350)"
    using all_rows[of "Num 119", OF all_columns] unfolding grid_block_rows .
  then show ?thesis
    unfolding getAllTaiwanGridIds_def by (simp add: start_lat_all start_lon_all Let_def)
qed

section \<open>Blocks of the grid\<close>

lemma length_concat_const:
  "(\<And>x. x \<in> set xs \<Longrightarrow> length (f x) = c) \<Longrightarrow> length (concat (map f xs)) = length xs * c"
  by (induction xs) auto

lemma length_grid_block: "length (grid_block i0 nr j0 nc) = nr * nc"
  unfolding grid_block_def by (subst length_concat_const[where c = nc]) simp_all

lemma set_grid_block:
  "set (grid_block i0 nr j0 nc) = {cell_id (i0 + int k) (j0 + int j) | k j. k < nr \<and> j < nc}"
  unfolding grid_block_def by fastforce

lemma set_grid_block_int:
  "set (grid_block i0 nr j0 nc)
     = {cell_id i j | i j. i0 \<le> i \<and> i < i0 + int nr \<and> j0 \<le> j \<and> j < j0 + int nc}"
proof -
  have "(\<exists>k j'. g = cell_id (i0 + int k) (j0 + int j') \<and> k < nr \<and> j' < nc)
        \<longleftrightarrow> (\<exists>i j. g = cell_id i j \<and> i0 \<le> i \<and> i < i0 + int nr \<and> j0 \<le> j \<and> j < j0 + int nc)"
    for g
  proof
    assume "\<exists>k j'. g = cell_id (i0 + int k) (j0 + int j') \<and> k < nr \<and> j' < nc"
    then obtain k j' where "g = cell_id (i0 + int k) (j0 + int j')" "k < nr" "j' < nc" by blast
    then show "\<exists>i j. g = cell_id i j \<and> i0 \<le> i \<and> i < i0 + int nr \<and> j0 \<le> j \<and> j < j0 + int nc"
      by (intro exI[of _ "i0 + int k"] exI[of _ "j0 + int j'"]) simp
  next
    assume "\<exists>i j. g = cell_id i j \<and> i0 \<le> i \<and> i < i0 + int nr \<and> j0 \<le> j \<and> j < j0 + int nc"
    then obtain i j where h: "g = cell_id i j" "i0 \<le> i" "i < i0 + int nr" "j0 \<le> j" "j < j0 + int nc"
      by blast
    then show "\<exists>k j'. g = cell_id (i0 + int k) (j0 + int j') \<and> k < nr \<and> j' < nc"
      by (intro exI[of _ "nat (i - i0)"] exI[of _ "nat (j - j0)"]) auto
  qed
  then show ?thesis unfolding set_grid_block by blast
qed

lemma nth_concat_const:
  assumes "\<And>x. x \<in> set xs \<Longrightarrow> length (f x) = c" "k < length xs" "j < c"
  shows "concat (map f xs) ! (k * c + j) = f (xs ! k) ! j"
  using assms
proof (induction xs arbitrary: k)
  case Nil
  then show ?case by simp
next
  case (Cons a xs)
  have la: "length (f a) = c" using Cons.prems(1) by simp
  show ?case
  proof (cases k)
    case 0
    then show ?thesis using la Cons.prems(3) by (simp add: nth_append)
  next
    case (Suc k')
    have "concat (map f xs) ! (k' * c + j) = f (xs ! k') ! j"
      using Cons.IH[of k'] Cons.prems Suc by simp
    then show ?thesis using la Suc by (simp add: nth_append)
  qed
qed

lemma nth_grid_block:
  assumes "k < nr" "j < nc"
  shows "grid_block i0 nr j0 nc ! (k * nc + j) = cell_id (i0 + int k) (j0 + int j)"
  unfolding grid_block_def
  by (subst nth_concat_const[where c = nc]) (use assms in simp_all)

lemma distinct_grid_block:
  assumes "0 \<le> i0" "0 \<le> j0"
  shows "distinct (grid_block i0 nr j0 nc)"
proof -
  have inj: "cell_id i j = cell_id i' j' \<longleftrightarrow> i = i' \<and> j = j'"
    if "0 \<le> i" "0 \<le> j" "0 \<le> i'" "0 \<le> j'" for i j i' j'
    using cell_id_inj[of i j i' j'] that by auto
  show ?thesis
  proof (cases "nc = 0")
    case True
    then have "grid_block i0 nr j0 nc = []" by (simp add: grid_block_def)
    then show ?thesis by simp
  next
    case False
    then have z: "0 \<in> set [0..<nc]" by simp
    show ?thesis
      unfolding grid_block_def
    proof (rule distinct_concat)
      show "distinct (map (\<lambda>k. map (\<lambda>j. cell_id (i0 + int k) (j0 + int j)) [0..<nc]) [0..<nr])"
        unfolding distinct_map
      proof (intro conjI inj_onI)
        show "distinct [0..<nr]" by simp
        fix k k' assume "k \<in> set [0..<nr]" "k' \<in> set [0..<nr]"
          and e: "map (\<lambda>j. cell_id (i0 + int k) (j0 + int j)) [0..<nc]
                = map (\<lambda>j. cell_id (i0 + int k') (j0 + int j)) [0..<nc]"
        from e z have "cell_id (i0 + int k) (j0 + int 0) = cell_id (i0 + int k') (j0 + int 0)"
          unfolding map_eq_conv by blast
        then show "k = k'"
          using inj[of "i0 + int k" "j0 + int 0" "i0 + int k'" "j0 + int 0"] assms by simp
      qed
      show "distinct ys"
        if "ys \<in> set (map (\<lambda>k. map (\<lambda>j. cell_id (i0 + int k) (j0 + int j)) [0..<nc]) [0..<nr])" for ys
      proof -
        from that obtain k where ys: "ys = map (\<lambda>j. cell_id (i0 + int k) (j0 + int j)) [0..<nc]" by auto
        show ?thesis unfolding ys distinct_map
          using inj assms by (auto simp: inj_on_def)
      qed
      show "set ys \<inter> set zs = {}"
        if "ys \<in> set (map (\<lambda>k. map (\<lambda>j. cell_id (i0 + int k) (j0 + int j)) [0..<nc]) [0..<nr])"
          "zs \<in> set (map (\<lambda>k. map (\<lambda>j. cell_id (i0 + int k) (j0 + int j)) [0..<nc]) [0..<nr])"
          "ys \<noteq> zs" for ys zs
      proof -
        from that obtain k k' where ys: "ys = map (\<lambda>j. cell_id (i0 + int k) (j0 + int j)) [0..<nc]"
          and zs: "zs = map (\<lambda>j. cell_id (i0 + int k') (j0 + int j)) [0..<nc]" by auto
        have "k \<noteq> k'" using that(3) ys zs by auto
        then show ?thesis unfolding ys zs using inj assms by auto
      qed
    qed
  qed
qed

section \<open>Claims about the enumeration of the whole region\<close>

lemma parse_119_00: "parseFloat ''119.00'' = Num 119"
  by (simp add: parse_eval) (simp add: round_eval)

text \<open>
  C3, as the claim states it, fails: the enumeration starts at the floor-aligned row,
  whose lower-left corner \<open>21.492\<close> lies below \<open>minLat = 21.5\<close>, so its first identifier
  is of a cell whose corner is not in \<open>[minLat, maxLat) \<times> [minLon, maxLon)\<close>.
\<close>

theorem C3_counterexample:
  "map_option fst (getAllTaiwanGridIds None) = Some (grid_block 2388 446 11900 350) \<and>
   grid_block 2388 446 11900 350 ! 0 = ''grid_21.492_119.00'' \<and>
   gridIdToCoordinate ''grid_21.492_119.00'' = Some (Num (6049460199465419 / 281474976710656), Num 119) \<and>
   js_lt (Num (6049460199465419 / 281474976710656)) (minLat TAIWAN_BOUNDS)"
proof -
  have "grid_block 2388 446 11900 350 ! (0 * 350 + 0) = cell_id (2388 + int 0) (11900 + int 0)"
    by (rule nth_grid_block) simp_all
  then have "grid_block 2388 446 11900 350 ! 0 = ''grid_21.492_119.00''"
    by (simp add: digits_eval)
  moreover have "map_option fst (getAllTaiwanGridIds None) = Some (grid_block 2388 446 11900 350)"
    by (simp add: getAllTaiwanGridIds_first)
  moreover have "split_on (CHR ''_'') ''grid_21.492_119.00'' = [''grid'', ''21.492'', ''119.00'']" by simp
  then have "gridIdToCoordinate ''grid_21.492_119.00''
               = Some (Num (6049460199465419 / 281474976710656), Num 119)"
    by (simp add: gridIdToCoordinate_def parse_21_492 parse_119_00 isNaN_def)
  moreover have "js_lt (Num (6049460199465419 / 281474976710656)) (minLat TAIWAN_BOUNDS)"
    by (simp add: TAIWAN_BOUNDS_def)
  ultimately show ?thesis by blast
qed

text \<open>
  C3, amended. The first call of \<open>getAllTaiwanGridIds\<close> returns, and caches, the identifiers
  of the cells of the rows \<open>2388, \<dots>, 2833\<close> and the columns \<open>11900, \<dots>, 12249\<close>, that is, of
  the cells whose corner \<open>(9 * i / 1000, j / 100)\<close> lies in
  \<open>[21.492, 25.5) \<times> [119.00, 122.50)\<close>, where \<open>21.492\<close> is the floor-aligned start below
  \<open>minLat\<close>: 446 rows of 350 identifiers in row-major order (ascending latitude, then
  ascending longitude within a row), 156100 identifiers without duplicates. A call with a
  filled cache returns the cached sequence and leaves the cache as it is, so every later
  call returns the sequence of the first.
\<close>

theorem C3_getAllTaiwanGridIds:
  "getAllTaiwanGridIds None
     = Some (grid_block 2388 446 11900 350, Some (grid_block 2388 446 11900 350)) \<and>
   getAllTaiwanGridIds (Some ids) = Some (ids, Some ids) \<and>
   Option.bind (getAllTaiwanGridIds None) (\<lambda>r. getAllTaiwanGridIds (snd r))
     = getAllTaiwanGridIds None \<and>
   length (grid_block 2388 446 11900 350) = 156100 \<and>
   distinct (grid_block 2388 446 11900 350) \<and>
   (\<forall>k j. k < 446 \<longrightarrow> j < 350 \<longrightarrow>
      grid_block 2388 446 11900 350 ! (k * 350 + j)
        = ''grid_'' @ decimal3 (nat (9 * (2388 + int k))) @ ''_'' @ decimal2 (nat (11900 + int j))) \<and>
   set (grid_block 2388 446 11900 350)
     = {''grid_'' @ decimal3 (nat (9 * i)) @ ''_'' @ decimal2 (nat j) | i j.
          21492 \<le> 9 * i \<and> 9 * i < 25500 \<and> 11900 \<le> j \<and> j < 12250}"
proof (intro conjI allI impI)
  show f: "getAllTaiwanGridIds None
     = Some (grid_block 2388 446 11900 350, Some (grid_block 2388 446 11900 350))"
    by (rule getAllTaiwanGridIds_first)
  show c: "getAllTaiwanGridIds (Some ids) = Some (ids, Some ids)"
    by (simp add: getAllTaiwanGridIds_def)
  show "Option.bind (getAllTaiwanGridIds None) (\<lambda>r. getAllTaiwanGridIds (snd r))
     = getAllTaiwanGridIds None"
    unfolding f by (simp add: getAllTaiwanGridIds_def)
  show "length (grid_block 2388 446 11900 350) = 156100" by (simp add: length_grid_block)
  show "distinct (grid_block 2388 446 11900 350)" by (rule distinct_grid_block) simp_all
  show "grid_block 2388 446 11900 350 ! (k * 350 + j)
        = ''grid_'' @ decimal3 (nat (9 * (2388 + int k))) @ ''_'' @ decimal2 (nat (11900 + int j))"
    if "k < 446" "j < 350" for k j
    using nth_grid_block[OF that, of 2388 11900] by (simp add: cell_id_def)
  have r: "(2388 \<le> i \<and> i < 2388 + int 446 \<and> 11900 \<le> j \<and> j < 11900 + int 350)
           = (21492 \<le> 9 * i \<and> 9 * i < 25500 \<and> 11900 \<le> j \<and> j < 12250)" for i j :: int
    by auto
  show "set (grid_block 2388 446 11900 350)
     = {''grid_'' @ decimal3 (nat (9 * i)) @ ''_'' @ decimal2 (nat j) | i j.
          21492 \<le> 9 * i \<and> 9 * i < 25500 \<and> 11900 \<le> j \<and> j < 12250}"
    unfolding set_grid_block_int cell_id_def r by (rule refl)
qed

theorem C3_getAllTaiwanGridIds_witness:
  "map_option fst (getAllTaiwanGridIds None) = Some (grid_block 2388 446 11900 350) \<and>
   grid_block 2388 446 11900 350 ! 351 = ''grid_21.501_119.01'' \<and>
   grid_block 2388 446 11900 350 ! 156099 = ''grid_25.497_122.49''"
proof -
  note T = C3_getAllTaiwanGridIds[of "[]"]
  have f: "getAllTaiwanGridIds None
     = Some (grid_block 2388 446 11900 350, Some (grid_block 2388 446 11900 350))"
    using T by (rule conjunct1)
  have n: "\<forall>k j. k < 446 \<longrightarrow> j < 350 \<longrightarrow>
      grid_block 2388 446 11900 350 ! (k * 350 + j)
        = ''grid_'' @ decimal3 (nat (9 * (2388 + int k))) @ ''_'' @ decimal2 (nat (11900 + int j))"
    using T by blast
  have "grid_block 2388 446 11900 350 ! (1 * 350 + 1)
        = ''grid_'' @ decimal3 (nat (9 * (2388 + int 1))) @ ''_'' @ decimal2 (nat (11900 + int 1))"
    by (rule n[rule_format]) simp_all
  then have a: "grid_block 2388 446 11900 350 ! 351 = ''grid_21.501_119.01''"
    by (simp add: digits_eval)
  have "grid_block 2388 446 11900 350 ! (445 * 350 + 349)
        = ''grid_'' @ decimal3 (nat (9 * (2388 + int 445))) @ ''_'' @ decimal2 (nat (11900 + int 349))"
    by (rule n[rule_format]) simp_all
  then have b: "grid_block 2388 446 11900 350 ! 156099 = ''grid_25.497_122.49''"
    by (simp add: digits_eval)
  show ?thesis unfolding f using a b by simp
qed

section \<open>The percentage\<close>

lemma round_double_rel_err:
  assumes lo: "2 powi (- 1022) \<le> x" and hi: "x < 2 powi 1023"
  shows "\<exists>r. round_double x = Num r \<and> \<bar>r - x\<bar> \<le> x / 2 ^ 53"
proof -
  have x0: "0 < x" using lo by (smt (verit) zero_less_power_int zero_less_numeral less_le_trans)
  define k where "k = ilog2 x"
  from ilog2_bounds[OF x0] have b: "2 powi k \<le> x" "x < 2 powi (k + 1)" by (simp_all add: k_def)
  have "(2::rat) powi (- 1022) < 2 powi (k + 1)" using lo b(2) by linarith
  then have k1: "- 1022 \<le> k" using powi_less_cancel[of "- 1022" "k + 1"] by linarith
  have "(2::rat) powi k < 2 powi 1023" using hi b(1) by linarith
  then have k2: "k < 1023" by (rule powi_less_cancel)
  define u :: rat where "u = 2 powi (k - 52)"
  have u0: "0 < u" by (simp add: u_def)
  have rd: "round_double x = Num (of_int (round_half_even (x / u)) * u)"
    unfolding u_def by (rule round_double_normal) (use b x0 k1 k2 in simp_all)
  have uk: "u = 2 powi k / 2 ^ 52" by (simp add: u_def power_int_diff)
  have "\<bar>of_int (round_half_even (x / u)) * u - x\<bar> = \<bar>of_int (round_half_even (x / u)) - x / u\<bar> * u"
  proof -
    have "of_int (round_half_even (x / u)) * u - x = (of_int (round_half_even (x / u)) - x / u) * u"
      using u0 by (simp add: field_simps)
    then show ?thesis using u0 by (simp add: abs_mult)
  qed
  also have "\<dots> \<le> 1 / 2 * u" using rhe_err[of "x / u"] u0 by (intro mult_right_mono) simp_all
  also have "\<dots> = 2 powi k / 2 ^ 53" by (simp add: uk)
  also have "\<dots> \<le> x / 2 ^ 53" using b(1) by (intro divide_right_mono) simp_all
  finally show ?thesis using rd by blast
qed

lemma floor_half: "\<lfloor>1 / 2 :: rat\<rfloor> = 0"
  by (simp add: floor_eq_iff)

lemma computePercentage_zero: "0 < T \<Longrightarrow> computePercentage 0 T = Num 0"
  by (simp add: computePercentage_def round_double_def floor_half)

lemma computePercentage_nearest:
  assumes T0: "0 < T" and ET: "E \<le> 2 * T" and TB: "T \<le> 2 ^ 64"
  shows "\<exists>n. computePercentage E T = Num (of_nat n) \<and>
           \<bar>(of_nat n :: rat) - 100 * of_nat E / of_nat T\<bar> \<le> 1 / 2 + 1 / 10 ^ 12"
proof (cases "E = 0")
  case True
  then show ?thesis using computePercentage_zero[OF T0] by (intro exI[of _ 0]) simp
next
  case False
  define x :: rat where "x = of_nat E / of_nat T"
  have Tr: "(0::rat) < of_nat T" using T0 by simp
  have x2: "x \<le> 2"
  proof -
    have "(of_nat E :: rat) \<le> of_nat (2 * T)" using ET by (simp only: of_nat_le_iff)
    then show ?thesis unfolding x_def using Tr by (simp add: field_simps)
  qed
  have xl: "1 / 2 ^ 64 \<le> x"
  proof -
    have e: "(1::rat) \<le> of_nat E" using False by simp
    have "(of_nat T :: rat) \<le> of_nat (2 ^ 64)" using TB by (simp only: of_nat_le_iff)
    then have t: "(of_nat T :: rat) \<le> 2 ^ 64" by simp
    show ?thesis unfolding x_def using frac_le[OF _ e Tr t] by simp
  qed
  have c0: "(0::rat) < 1 / 2 ^ 64" by simp
  have x0: "0 < x" using xl c0 by linarith
  have "\<exists>r. round_double x = Num r \<and> \<bar>r - x\<bar> \<le> x / 2 ^ 53"
  proof (rule round_double_rel_err)
    have "(2::rat) powi (- 1022) \<le> 1 / 2 ^ 64" by (simp add: power_int_minus field_simps)
    then show "2 powi (- 1022) \<le> x" using xl by linarith
    have "(2::rat) < 2 powi 1023" by simp
    then show "x < 2 powi 1023" using x2 by linarith
  qed
  then obtain p1 where p1: "round_double x = Num p1" "\<bar>p1 - x\<bar> \<le> x / 2 ^ 53" by blast
  have e1: "\<bar>p1 - x\<bar> \<le> 2 / 2 ^ 53"
  proof -
    have "x / 2 ^ 53 \<le> 2 / 2 ^ 53" using x2 by (intro divide_right_mono) simp_all
    then show ?thesis using p1(2) by linarith
  qed
  have p1l: "x / 2 \<le> p1"
  proof -
    have "x / 2 ^ 53 \<le> x / 2" using x0 by (intro divide_left_mono) simp_all
    then show ?thesis using p1(2) by linarith
  qed
  define y where "y = p1 * 100"
  have y0: "1 / 2 ^ 64 \<le> y" using p1l xl c0 unfolding y_def by linarith
  define d1 :: rat where "d1 = 2 / 2 ^ 53"
  define d2 :: rat where "d2 = 201 / 2 ^ 53"
  have d: "0 \<le> d1" "d1 \<le> 1 / 100" "0 \<le> d2" "d2 + 100 * d1 \<le> 1 / 10 ^ 12"
    by (simp_all add: d1_def d2_def)
  have yu: "y \<le> 201" using e1 x2 d unfolding y_def d1_def[symmetric] by linarith
  have "\<exists>r. round_double y = Num r \<and> \<bar>r - y\<bar> \<le> y / 2 ^ 53"
  proof (rule round_double_rel_err)
    have "(2::rat) powi (- 1022) \<le> 1 / 2 ^ 64" by (simp add: power_int_minus field_simps)
    then show "2 powi (- 1022) \<le> y" using y0 by linarith
    have "(201::rat) < 2 powi 1023" by simp
    then show "y < 2 powi 1023" using yu by linarith
  qed
  then obtain p2 where p2: "round_double y = Num p2" "\<bar>p2 - y\<bar> \<le> y / 2 ^ 53" by blast
  have e2: "\<bar>p2 - y\<bar> \<le> 201 / 2 ^ 53"
  proof -
    have "y / 2 ^ 53 \<le> 201 / 2 ^ 53" using yu by (intro divide_right_mono) simp_all
    then show ?thesis using p2(2) by linarith
  qed
  have p20: "0 \<le> p2"
  proof -
    have "y / 2 ^ 53 \<le> y" using y0 by (simp add: field_simps)
    then show ?thesis using p2(2) by linarith
  qed
  define n where "n = \<lfloor>p2 + 1 / 2\<rfloor>"
  have n0: "0 \<le> n" unfolding n_def using p20 by simp
  have nf: "of_int n \<le> p2 + 1 / 2" "p2 + 1 / 2 < of_int n + 1" unfolding n_def by linarith+
  have T': "of_nat T \<noteq> (0::rat)" using T0 by simp
  have cp: "computePercentage E T = Num (of_int n)"
    unfolding computePercentage_def using T' p1(1) p2(1)
    by (simp add: x_def[symmetric] y_def[symmetric] n_def)
  have hx: "100 * of_nat E / of_nat T = 100 * x" by (simp add: x_def)
  have "\<bar>of_int n - 100 * x\<bar> \<le> 1 / 2 + (d2 + 100 * d1)"
    using nf e1 e2 unfolding y_def d1_def[symmetric] d2_def[symmetric] by linarith
  then have "\<bar>of_int n - 100 * x\<bar> \<le> 1 / 2 + 1 / 10 ^ 12" using d(4) by linarith
  then show ?thesis
    using cp n0 unfolding hx by (intro exI[of _ "nat n"]) simp
qed

lemma mul100_mono:
  assumes "nonneg a" "js_le a b"
  shows "js_le (js_mul a (Num 100)) (js_mul b (Num 100))"
proof (cases a)
  case (Num r)
  then have r: "0 \<le> r" using assms(1) by simp
  show ?thesis
  proof (cases b)
    case (Num r')
    then have "r \<le> r'" using assms(2) \<open>a = Num r\<close> by (simp add: js_le_Num)
    then have "r * 100 \<le> r' * 100" by simp
    moreover have "0 \<le> r * 100" using r by simp
    ultimately show ?thesis unfolding \<open>a = Num r\<close> Num by (simp add: round_double_mono)
  next
    case PosInf
    have "nonneg (round_double (r * 100))" using r by (intro round_double_nonneg) simp
    then show ?thesis unfolding \<open>a = Num r\<close> PosInf
      by (cases "round_double (r * 100)") (simp_all add: js_le_def)
  next
    case NegInf
    then show ?thesis using assms(2) \<open>a = Num r\<close> by (simp add: js_le_def)
  next
    case NaN
    then show ?thesis using assms(2) by (simp add: js_le_def)
  qed
next
  case PosInf
  then show ?thesis using assms(2) by (cases b) (simp_all add: js_le_def)
next
  case NegInf
  then show ?thesis using assms(1) by simp
next
  case NaN
  then show ?thesis using assms(1) by simp
qed

lemma Math_round_mono: "js_le a b \<Longrightarrow> js_le (Math_round a) (Math_round b)"
proof (cases a; cases b)
  fix r r' assume ab: "a = Num r" "b = Num r'" and le: "js_le a b"
  then have "r \<le> r'" by (simp add: js_le_Num)
  then have "\<lfloor>r + 1 / 2\<rfloor> \<le> \<lfloor>r' + 1 / 2\<rfloor>" by (intro floor_mono) simp
  then show "js_le (Math_round a) (Math_round b)" unfolding ab by (simp add: js_le_Num)
qed (simp_all add: js_le_def)

lemma computePercentage_mono:
  assumes "0 < T" "E \<le> E'"
  shows "js_le (computePercentage E T) (computePercentage E' T)"
proof -
  have T': "of_nat T \<noteq> (0::rat)" "(0::rat) < of_nat T" using assms(1) by simp_all
  have le: "(of_nat E :: rat) / of_nat T \<le> of_nat E' / of_nat T"
    using assms(2) T'(2) by (simp add: divide_right_mono)
  have z: "(0::rat) \<le> of_nat E / of_nat T" by simp
  have "js_le (round_double (of_nat E / of_nat T)) (round_double (of_nat E' / of_nat T))"
    using z le by (rule round_double_mono)
  moreover have "nonneg (round_double (of_nat E / of_nat T))" using z by (rule round_double_nonneg)
  ultimately have "js_le (js_mul (round_double (of_nat E / of_nat T)) (Num 100))
                         (js_mul (round_double (of_nat E' / of_nat T)) (Num 100))"
    by (intro mul100_mono)
  then show ?thesis
    unfolding computePercentage_def using T'(1) by (simp add: Math_round_mono)
qed

lemma record_cell_in_region:
  assumes "record_cell fp = Some g"
  shows "g \<in> set (grid_block 2388 446 11900 351)"
proof -
  from assms obtain lat lon where c: "coordinateToGridId lat lon = Some g"
    unfolding record_cell_def by (auto simp: Let_def split: option.splits if_splits)
  then have "isInTaiwanBounds lat lon" unfolding coordinateToGridId_def by (auto split: if_splits)
  from coordinateToGridId_cell[OF this] c obtain p q :: rat where
    "2388 \<le> \<lfloor>p\<rfloor>" "\<lfloor>p\<rfloor> \<le> 2833" "11900 \<le> \<lfloor>q\<rfloor>" "\<lfloor>q\<rfloor> \<le> 12250" "g = cell_id \<lfloor>p\<rfloor> \<lfloor>q\<rfloor>"
    by auto
  then show ?thesis unfolding set_grid_block_int by (intro CollectI exI[of _ "\<lfloor>p\<rfloor>"] exI[of _ "\<lfloor>q\<rfloor>"]) simp
qed

lemma exploredGridIds_bound: "length (exploredGridIds fps) \<le> 156546"
proof -
  have "set (exploredGridIds fps) \<subseteq> set (grid_block 2388 446 11900 351)"
    unfolding exploredGridIds_set using record_cell_in_region by blast
  then have "card (set (exploredGridIds fps)) \<le> card (set (grid_block 2388 446 11900 351))"
    by (intro card_mono) simp_all
  also have "\<dots> \<le> length (grid_block 2388 446 11900 351)" by (rule card_length)
  also have "\<dots> = 156546" by (simp add: length_grid_block)
  finally show ?thesis unfolding exploredGridIds_length .
qed

lemma GET_authenticated:
  assumes "session_user_id s = Some u"
  shows "GET_mist_percentage s store None
     = Some ((coverage (grid_block 2388 446 11900 350) (findMany u store), 200),
             Some (grid_block 2388 446 11900 350))"
  using assms by (simp add: GET_mist_percentage_def getAllTaiwanGridIds_first)

lemma computePercentage_1_156100: "computePercentage (Suc 0) 156100 = Num 0"
  by (simp add: computePercentage_def) (simp add: round_eval)

lemma computePercentage_1_4: "computePercentage (Suc 0) 4 = Num 25"
  by (simp add: computePercentage_def) (simp add: round_eval)

lemma explored_one:
  "exploredGridIds [\<lparr> fp_id = 1, user_id = ''u'', coordinate = Some ''25.033,121.5654'',
                      Create_time = None, Update_time = None \<rparr>] = [''grid_25.029_121.56'']"
proof -
  have sp: "split_on (CHR '','') ''25.033,121.5654'' = [''25.033'', ''121.5654'']" by simp
  show ?thesis
    by (simp add: exploredGridIds_def forEach_body_def sp parse_25_033 parse_121_5654 isNaN_def
          id_25_033_121_5654 Set_add_def)
qed

lemma coverage_real:
  "\<exists>n. coverage (grid_block 2388 446 11900 350) fps = Num (of_nat n) \<and> n \<le> 100 \<and>
       \<bar>(of_nat n :: rat) - 100 * of_nat (length (exploredGridIds fps)) / 156100\<bar>
         \<le> 1 / 2 + 1 / 10 ^ 12"
proof -
  define E where "E = length (exploredGridIds fps)"
  have E: "E \<le> 156546" unfolding E_def by (rule exploredGridIds_bound)
  have "\<exists>n. computePercentage E 156100 = Num (of_nat n) \<and>
           \<bar>(of_nat n :: rat) - 100 * of_nat E / of_nat 156100\<bar> \<le> 1 / 2 + 1 / 10 ^ 12"
    by (rule computePercentage_nearest) (use E in simp_all)
  then obtain n where n: "computePercentage E 156100 = Num (of_nat n)"
    "\<bar>(of_nat n :: rat) - 100 * of_nat E / 156100\<bar> \<le> 1 / 2 + 1 / 10 ^ 12" by auto
  have "(of_nat E :: rat) \<le> of_nat 156546" using E by (simp only: of_nat_le_iff)
  then have "100 * (of_nat E :: rat) / 156100 \<le> 100 * 156546 / 156100" by simp
  also have "\<dots> < 1003 / 10" by simp
  finally have "(of_nat n :: rat) < 1003 / 10 + (1 / 2 + 1 / 10 ^ 12)" using n(2) by linarith
  also have "\<dots> < 101" by simp
  finally have "(of_nat n :: rat) < of_nat 101" by simp
  then have "n < 101" by (simp only: of_nat_less_iff)
  then have "n \<le> 100" by simp
  moreover have "coverage (grid_block 2388 446 11900 350) fps = Num (of_nat n)"
    using n(1) by (simp add: coverage_def length_grid_block E_def)
  ultimately show ?thesis using n(2) unfolding E_def by blast
qed

lemma coverage_mono: "js_le (coverage allGridIds fps) (coverage allGridIds (fps @ [fp]))"
proof (cases "allGridIds = []")
  case True
  then show ?thesis by (simp add: coverage_def js_le_Num)
next
  case False
  have "length (exploredGridIds fps) \<le> length (exploredGridIds (fps @ [fp]))"
    unfolding exploredGridIds_snoc by (simp add: Set_add_def split: option.splits)
  then show ?thesis
    using False by (simp add: coverage_def computePercentage_mono)
qed

lemma coverage_same:
  assumes "record_cell fp = None \<or> (\<exists>g. record_cell fp = Some g \<and> g \<in> set (exploredGridIds fps))"
  shows "exploredGridIds (fps @ [fp]) = exploredGridIds fps"
    and "coverage allGridIds (fps @ [fp]) = coverage allGridIds fps"
proof -
  show e: "exploredGridIds (fps @ [fp]) = exploredGridIds fps"
    using assms unfolding exploredGridIds_snoc by (auto simp: Set_add_def)
  show "coverage allGridIds (fps @ [fp]) = coverage allGridIds fps"
    unfolding coverage_def e ..
qed

lemma explored_new:
  assumes "record_cell fp = Some g" "g \<notin> set (exploredGridIds fps)"
  shows "exploredGridIds (fps @ [fp]) = exploredGridIds fps @ [g]"
  using assms unfolding exploredGridIds_snoc by (simp add: Set_add_def)

section \<open>Claims about the coverage percentage\<close>

text \<open>
  C4, as the claim states it, fails: the handler returns the percentage rounded to an
  integer, not \<open>100 * |exploredSet| / totalCellCount\<close>. With one explored cell of the
  156100 cells of the enumeration it returns \<open>0\<close>.
\<close>

theorem C4_counterexample:
  "GET_mist_percentage (Some \<lparr> user = Some \<lparr> user_email = None, user_ident = Some ''u'' \<rparr> \<rparr>)
       [\<lparr> fp_id = 1, user_id = ''u'', coordinate = Some ''25.033,121.5654'',
           Create_time = None, Update_time = None \<rparr>] None
     = Some ((Num 0, 200), Some (grid_block 2388 446 11900 350)) \<and>
   length (exploredGridIds (findMany ''u''
       [\<lparr> fp_id = 1, user_id = ''u'', coordinate = Some ''25.033,121.5654'',
           Create_time = None, Update_time = None \<rparr>])) = 1 \<and>
   length (grid_block 2388 446 11900 350) = 156100 \<and>
   Num 0 \<noteq> Num (100 * 1 / 156100)"
proof -
  let ?s = "Some \<lparr> user = Some \<lparr> user_email = None, user_ident = Some ''u'' \<rparr> \<rparr>"
  let ?r = "\<lparr> fp_id = 1, user_id = ''u'', coordinate = Some ''25.033,121.5654'',
           Create_time = None, Update_time = None \<rparr>"
  have u: "session_user_id ?s = Some ''u''" by (simp add: session_user_id_def)
  have fm: "findMany ''u'' [?r] = [?r]" by (simp add: findMany_def)
  have e: "length (exploredGridIds (findMany ''u'' [?r])) = 1" unfolding fm explored_one by simp
  have l: "length (grid_block 2388 446 11900 350) = 156100" by (simp add: length_grid_block)
  have "coverage (grid_block 2388 446 11900 350) (findMany ''u'' [?r]) = Num 0"
    unfolding coverage_def l e Let_def by (simp add: computePercentage_1_156100)
  then have "GET_mist_percentage ?s [?r] None = Some ((Num 0, 200), Some (grid_block 2388 446 11900 350))"
    unfolding GET_authenticated[OF u] by simp
  then show ?thesis using e l by simp
qed

text \<open>
  C4, amended. The handler returns the integer nearest to
  \<open>100 * |exploredSet| / totalCellCount\<close> (the value of \<open>Math.round\<close> of the double
  computation, within \<open>1 / 2 + 1 / 10 ^ 12\<close> of the exact quotient), where \<open>totalCellCount\<close>
  is the length of the enumeration of the whole region, 156100, and the explored set is
  the duplicate-free set of the identifiers of the rows of the user whose coordinate is
  not \<open>null\<close>; the result is one of \<open>0, \<dots>, 100\<close>. It is \<open>0\<close> when the enumeration is empty
  and when nobody is logged in. With 4 cells of which 1 is explored it is \<open>25\<close>.
\<close>

theorem C4_coverage_percentage:
  "coverage [] fps = Num 0 \<and>
   (session_user_id s = None \<longrightarrow> GET_mist_percentage s store cache = Some ((Num 0, 200), cache)) \<and>
   (session_user_id s = Some u \<longrightarrow>
      GET_mist_percentage s store None
        = Some ((coverage (grid_block 2388 446 11900 350)
                   (filter (\<lambda>f. user_id f = u \<and> coordinate f \<noteq> None) store), 200),
                Some (grid_block 2388 446 11900 350))) \<and>
   length (grid_block 2388 446 11900 350) = 156100 \<and>
   (\<exists>n. coverage (grid_block 2388 446 11900 350) fps = Num (of_nat n) \<and> n \<le> 100 \<and>
        \<bar>(of_nat n :: rat) - 100 * of_nat (length (exploredGridIds fps)) / 156100\<bar>
          \<le> 1 / 2 + 1 / 10 ^ 12) \<and>
   (allGridIds \<noteq> [] \<longrightarrow> length (exploredGridIds fps) \<le> 2 * length allGridIds \<longrightarrow>
      length allGridIds \<le> 2 ^ 64 \<longrightarrow>
      (\<exists>n. coverage allGridIds fps = Num (of_nat n) \<and>
           \<bar>(of_nat n :: rat) - 100 * of_nat (length (exploredGridIds fps)) / of_nat (length allGridIds)\<bar>
             \<le> 1 / 2 + 1 / 10 ^ 12)) \<and>
   (length allGridIds = 4 \<longrightarrow> length (exploredGridIds fps) = 1 \<longrightarrow>
      coverage allGridIds fps = Num 25)"
proof (intro conjI impI)
  show "coverage [] fps = Num 0" by (simp add: coverage_def)
  show "GET_mist_percentage s store cache = Some ((Num 0, 200), cache)"
    if "session_user_id s = None"
    using that by (simp add: GET_mist_percentage_def)
  show "GET_mist_percentage s store None
        = Some ((coverage (grid_block 2388 446 11900 350)
                   (filter (\<lambda>f. user_id f = u \<and> coordinate f \<noteq> None) store), 200),
                Some (grid_block 2388 446 11900 350))"
    if "session_user_id s = Some u"
    using GET_authenticated[OF that] by (simp add: findMany_def)
  show "length (grid_block 2388 446 11900 350) = 156100" by (simp add: length_grid_block)
  show "\<exists>n. coverage (grid_block 2388 446 11900 350) fps = Num (of_nat n) \<and> n \<le> 100 \<and>
        \<bar>(of_nat n :: rat) - 100 * of_nat (length (exploredGridIds fps)) / 156100\<bar>
          \<le> 1 / 2 + 1 / 10 ^ 12"
    by (rule coverage_real)
  show "\<exists>n. coverage allGridIds fps = Num (of_nat n) \<and>
           \<bar>(of_nat n :: rat) - 100 * of_nat (length (exploredGridIds fps)) / of_nat (length allGridIds)\<bar>
             \<le> 1 / 2 + 1 / 10 ^ 12"
    if "allGridIds \<noteq> []" "length (exploredGridIds fps) \<le> 2 * length allGridIds"
      "length allGridIds \<le> 2 ^ 64"
  proof -
    have "0 < length allGridIds" using that(1) by simp
    from computePercentage_nearest[OF this that(2,3)] show ?thesis
      using that(1) by (simp add: coverage_def)
  qed
  show "coverage allGridIds fps = Num 25"
    if "length allGridIds = 4" "length (exploredGridIds fps) = 1"
    using that by (simp add: coverage_def computePercentage_1_4)
qed

theorem C4_coverage_percentage_witness:
  "coverage [''grid_25.029_121.56'', ''grid_25.029_121.57'', ''grid_25.038_121.56'', ''grid_25.038_121.57'']
     [\<lparr> fp_id = 1, user_id = ''u'', coordinate = Some ''25.033,121.5654'',
         Create_time = None, Update_time = None \<rparr>] = Num 25 \<and>
   GET_mist_percentage None
     [\<lparr> fp_id = 1, user_id = ''u'', coordinate = Some ''25.033,121.5654'',
         Create_time = None, Update_time = None \<rparr>] None = Some ((Num 0, 200), None) \<and>
   GET_mist_percentage (Some \<lparr> user = Some \<lparr> user_email = None, user_ident = Some ''u'' \<rparr> \<rparr>)
     [\<lparr> fp_id = 1, user_id = ''v'', coordinate = Some ''24.5,121'',
         Create_time = None, Update_time = None \<rparr>,
      \<lparr> fp_id = 2, user_id = ''u'', coordinate = None,
         Create_time = None, Update_time = None \<rparr>,
      \<lparr> fp_id = 3, user_id = ''u'', coordinate = Some ''25.033,121.5654'',
         Create_time = None, Update_time = None \<rparr>] None
     = Some ((coverage (grid_block 2388 446 11900 350)
                [\<lparr> fp_id = 3, user_id = ''u'', coordinate = Some ''25.033,121.5654'',
                    Create_time = None, Update_time = None \<rparr>], 200),
             Some (grid_block 2388 446 11900 350))"
proof -
  let ?s = "Some \<lparr> user = Some \<lparr> user_email = None, user_ident = Some ''u'' \<rparr> \<rparr>"
  let ?r = "\<lparr> fp_id = 1, user_id = ''u'', coordinate = Some ''25.033,121.5654'',
           Create_time = None, Update_time = None \<rparr>"
  let ?st = "[\<lparr> fp_id = 1, user_id = ''v'', coordinate = Some ''24.5,121'',
         Create_time = None, Update_time = None \<rparr>,
      \<lparr> fp_id = 2, user_id = ''u'', coordinate = None,
         Create_time = None, Update_time = None \<rparr>,
      \<lparr> fp_id = 3, user_id = ''u'', coordinate = Some ''25.033,121.5654'',
         Create_time = None, Update_time = None \<rparr>]"
  let ?all = "[''grid_25.029_121.56'', ''grid_25.029_121.57'', ''grid_25.038_121.56'', ''grid_25.038_121.57'']"
  have l4: "length ?all = 4" by simp
  have l1: "length (exploredGridIds [?r]) = 1" unfolding explored_one by simp
  have u: "session_user_id ?s = Some ''u''" by (simp add: session_user_id_def)
  have n: "session_user_id None = None" by (simp add: session_user_id_def)
  note T1 = C4_coverage_percentage[where allGridIds = "?all" and fps = "[?r]" and s = None
      and store = "[?r]" and cache = None]
  note T2 = C4_coverage_percentage[where s = "?s" and u = "''u''" and store = "?st"]
  have a: "coverage ?all [?r] = Num 25" using T1 l4 l1 by blast
  have b: "GET_mist_percentage None [?r] None = Some ((Num 0, 200), None)" using T1 n by blast
  have "GET_mist_percentage ?s ?st None
     = Some ((coverage (grid_block 2388 446 11900 350)
                (filter (\<lambda>f. user_id f = ''u'' \<and> coordinate f \<noteq> None) ?st), 200),
             Some (grid_block 2388 446 11900 350))"
    by (rule T2[THEN conjunct2, THEN conjunct2, THEN conjunct1, THEN mp, OF u])
  then have c: "GET_mist_percentage ?s ?st None
     = Some ((coverage (grid_block 2388 446 11900 350)
                [\<lparr> fp_id = 3, user_id = ''u'', coordinate = Some ''25.033,121.5654'',
                    Create_time = None, Update_time = None \<rparr>], 200),
             Some (grid_block 2388 446 11900 350))" by simp
  show ?thesis by (intro conjI a b c)
qed

text \<open>
  C6, as the claim states it, fails in the "only if" direction: the percentage is
  rounded to an integer, so it can stay the same although the new record maps to a cell
  that was not explored yet. The first record of a user leaves the percentage at \<open>0\<close>.
\<close>

theorem C6_counterexample:
  "record_cell \<lparr> fp_id = 1, user_id = ''u'', coordinate = Some ''25.033,121.5654'',
                   Create_time = None, Update_time = None \<rparr> = Some ''grid_25.029_121.56'' \<and>
   ''grid_25.029_121.56'' \<notin> set (exploredGridIds []) \<and>
   map_option fst (getAllTaiwanGridIds None) = Some (grid_block 2388 446 11900 350) \<and>
   coverage (grid_block 2388 446 11900 350)
       ([] @ [\<lparr> fp_id = 1, user_id = ''u'', coordinate = Some ''25.033,121.5654'',
                  Create_time = None, Update_time = None \<rparr>])
     = coverage (grid_block 2388 446 11900 350) []"
proof -
  let ?r = "\<lparr> fp_id = 1, user_id = ''u'', coordinate = Some ''25.033,121.5654'',
           Create_time = None, Update_time = None \<rparr>"
  have sp: "split_on (CHR '','') ''25.033,121.5654'' = [''25.033'', ''121.5654'']" by simp
  have rc: "record_cell ?r = Some ''grid_25.029_121.56''"
    by (simp add: record_cell_def sp parse_25_033 parse_121_5654 id_25_033_121_5654)
  have e0: "exploredGridIds [] = []" by (simp add: exploredGridIds_def)
  have l: "length (grid_block 2388 446 11900 350) = 156100" by (simp add: length_grid_block)
  have c1: "coverage (grid_block 2388 446 11900 350) [?r] = Num 0"
    unfolding coverage_def l explored_one Let_def by (simp add: computePercentage_1_156100)
  have c0: "coverage (grid_block 2388 446 11900 350) [] = Num 0"
    unfolding coverage_def l e0 Let_def by (simp add: computePercentage_zero)
  show ?thesis using rc e0 c0 c1 by (simp add: getAllTaiwanGridIds_first)
qed

text \<open>
  C6, amended. Adding a visit record never decreases the percentage. The explored set
  and the percentage stay the same when the new record is skipped or maps to a cell that
  is already explored; otherwise the explored set grows by that one cell, and the
  percentage, an integer, stays the same or grows (it grows only when the rounded value
  changes, about once in 1561 new cells of the 156100).
\<close>

theorem C6_coverage_monotone:
  "js_le (coverage allGridIds fps) (coverage allGridIds (fps @ [fp])) \<and>
   (\<exists>m n. coverage (grid_block 2388 446 11900 350) fps = Num (of_nat m) \<and>
          coverage (grid_block 2388 446 11900 350) (fps @ [fp]) = Num (of_nat n) \<and> m \<le> n) \<and>
   (record_cell fp = None \<or> (\<exists>g. record_cell fp = Some g \<and> g \<in> set (exploredGridIds fps)) \<longrightarrow>
      exploredGridIds (fps @ [fp]) = exploredGridIds fps \<and>
      coverage allGridIds (fps @ [fp]) = coverage allGridIds fps) \<and>
   (record_cell fp = Some g \<longrightarrow> g \<notin> set (exploredGridIds fps) \<longrightarrow>
      exploredGridIds (fps @ [fp]) = exploredGridIds fps @ [g])"
proof (intro conjI impI)
  show m: "js_le (coverage allGridIds fps) (coverage allGridIds (fps @ [fp]))" for allGridIds
    by (rule coverage_mono)
  from coverage_real[of fps] obtain a where
    a: "coverage (grid_block 2388 446 11900 350) fps = Num (of_nat a)" by blast
  from coverage_real[of "fps @ [fp]"] obtain b where
    b: "coverage (grid_block 2388 446 11900 350) (fps @ [fp]) = Num (of_nat b)" by blast
  have "(of_nat a :: rat) \<le> of_nat b"
    using m[of "grid_block 2388 446 11900 350"] unfolding a b by (simp add: js_le_Num)
  then have "a \<le> b" by (simp only: of_nat_le_iff)
  then show "\<exists>m n. coverage (grid_block 2388 446 11900 350) fps = Num (of_nat m) \<and>
          coverage (grid_block 2388 446 11900 350) (fps @ [fp]) = Num (of_nat n) \<and> m \<le> n"
    using a b by blast
  show "exploredGridIds (fps @ [fp]) = exploredGridIds fps"
    if "record_cell fp = None \<or> (\<exists>g. record_cell fp = Some g \<and> g \<in> set (exploredGridIds fps))"
    using that by (rule coverage_same(1))
  show "coverage allGridIds (fps @ [fp]) = coverage allGridIds fps"
    if "record_cell fp = None \<or> (\<exists>g. record_cell fp = Some g \<and> g \<in> set (exploredGridIds fps))"
    using that by (rule coverage_same(2))
  show "exploredGridIds (fps @ [fp]) = exploredGridIds fps @ [g]"
    if "record_cell fp = Some g" "g \<notin> set (exploredGridIds fps)"
    using that by (rule explored_new)
qed

theorem C6_coverage_monotone_witness:
  "record_cell \<lparr> fp_id = 2, user_id = ''u'', coordinate = Some ''25.0335,121.5658'',
                   Create_time = None, Update_time = None \<rparr> = Some ''grid_25.029_121.56'' \<and>
   ''grid_25.029_121.56'' \<in> set (exploredGridIds
       [\<lparr> fp_id = 1, user_id = ''u'', coordinate = Some ''25.033,121.5654'',
           Create_time = None, Update_time = None \<rparr>]) \<and>
   coverage [''grid_25.029_121.56'', ''grid_25.029_121.57'']
       ([\<lparr> fp_id = 1, user_id = ''u'', coordinate = Some ''25.033,121.5654'',
            Create_time = None, Update_time = None \<rparr>] @
        [\<lparr> fp_id = 2, user_id = ''u'', coordinate = Some ''25.0335,121.5658'',
            Create_time = None, Update_time = None \<rparr>])
     = coverage [''grid_25.029_121.56'', ''grid_25.029_121.57'']
         [\<lparr> fp_id = 1, user_id = ''u'', coordinate = Some ''25.033,121.5654'',
             Create_time = None, Update_time = None \<rparr>] \<and>
   exploredGridIds ([] @ [\<lparr> fp_id = 2, user_id = ''u'', coordinate = Some ''25.0335,121.5658'',
                            Create_time = None, Update_time = None \<rparr>])
     = exploredGridIds [] @ [''grid_25.029_121.56'']"
proof -
  let ?r1 = "\<lparr> fp_id = 1, user_id = ''u'', coordinate = Some ''25.033,121.5654'',
           Create_time = None, Update_time = None \<rparr>"
  let ?r2 = "\<lparr> fp_id = 2, user_id = ''u'', coordinate = Some ''25.0335,121.5658'',
           Create_time = None, Update_time = None \<rparr>"
  have sp: "split_on (CHR '','') ''25.0335,121.5658'' = [''25.0335'', ''121.5658'']" by simp
  have rc: "record_cell ?r2 = Some ''grid_25.029_121.56''"
    by (simp add: record_cell_def sp parse_25_0335 parse_121_5658 id_25_0335_121_5658)
  have mem: "''grid_25.029_121.56'' \<in> set (exploredGridIds [?r1])" unfolding explored_one by simp
  have nm: "''grid_25.029_121.56'' \<notin> set (exploredGridIds [])" by (simp add: exploredGridIds_def)
  have h: "record_cell ?r2 = None \<or>
           (\<exists>g. record_cell ?r2 = Some g \<and> g \<in> set (exploredGridIds [?r1]))"
    using rc mem by blast
  have a: "coverage [''grid_25.029_121.56'', ''grid_25.029_121.57''] ([?r1] @ [?r2])
             = coverage [''grid_25.029_121.56'', ''grid_25.029_121.57''] [?r1]"
    using C6_coverage_monotone[where fps = "[?r1]" and fp = "?r2"
        and allGridIds = "[''grid_25.029_121.56'', ''grid_25.029_121.57'']",
        THEN conjunct2, THEN conjunct2, THEN conjunct1, THEN mp, OF h]
    by (rule conjunct2)
  have b: "exploredGridIds ([] @ [?r2]) = exploredGridIds [] @ [''grid_25.029_121.56'']"
    by (rule C6_coverage_monotone[where fps = "[]" and fp = "?r2" and g = "''grid_25.029_121.56''",
          THEN conjunct2, THEN conjunct2, THEN conjunct2, THEN mp, OF rc, THEN mp, OF nm])
  show ?thesis by (intro conjI rc mem a b)
qed

section \<open>The enumeration of a viewport\<close>




















lemma start_NaN: "js_mul (Math_floor (js_div NaN g)) g = NaN"
  by simp









lemma grid_block_empty [simp]: "grid_block i0 0 j0 nc = []" "grid_block i0 nr j0 0 = []"
  by (simp_all add: grid_block_def)










section \<open>Claims about the enumeration of a viewport\<close>




end
